theory Spec2Isabelle
  imports Complex_Main "HOL-Library.AList"
begin

section \<open>Python values and strings\<close>

text \<open>
  The plugin is Python. A number (\<open>total_minutes\<close>, \<open>segment_seconds\<close>, \<open>fps\<close>) is the
  rational it denotes, and every arithmetic operation of the source on such numbers is
  followed by the rounding \<open>rnd\<close> of the number type, a parameter of the model: \<open>exact\<close>
  for \<open>fractions.Fraction\<close>, \<open>binary64\<close> for \<open>float\<close> (and for \<open>int\<close> arguments below
  \<open>2 ^ 53\<close>, whose true division is a \<open>float\<close>). Overflow to infinity and subnormal
  numbers are left out. Frame constants are Python's unbounded integers. A \<open>str\<close> is a
  \<open>string\<close> whose characters are the code points below 256.
\<close>

datatype py_error = ZeroDivisionError | IndexError | TypeError

definition is_space :: "char \<Rightarrow> bool" where
  \<comment> \<open>\<open>str.isspace\<close>, which is also the class \<open>\s\<close> of \<open>re\<close> on a \<open>str\<close> pattern\<close>
  "is_space c =
     (let n = (of_char c :: nat)
      in (9 \<le> n \<and> n \<le> 13) \<or> (28 \<le> n \<and> n \<le> 32) \<or> n = 133 \<or> n = 160)"

definition is_newline :: "char \<Rightarrow> bool" where
  \<comment> \<open>the class \<open>[\n\r]\<close>\<close>
  "is_newline c = (c = CHR 0x0A \<or> c = CHR 0x0D)"

definition is_terminal :: "char \<Rightarrow> bool" where
  \<comment> \<open>the class \<open>[.!?]\<close>\<close>
  "is_terminal c = (c = CHR ''.'' \<or> c = CHR ''!'' \<or> c = CHR ''?'')"

definition strip :: "string \<Rightarrow> string" where
  "strip s = rev (dropWhile is_space (rev (dropWhile is_space s)))"

fun join :: "string \<Rightarrow> string list \<Rightarrow> string" where
  "join sep [] = []"
| "join sep [x] = x"
| "join sep (x # y # ys) = x @ sep @ join sep (y # ys)"

text \<open>
  \<open>re.split(r"[\n\r]+|(?<=[.!?])\s+", prompt)\<close>. The scan goes left to right; at each
  position the first alternative is tried before the second, each takes a maximal run, and
  no match is empty. \<open>prev\<close> is the character before the position (for the lookbehind),
  \<open>acc\<close> the part read since the last match, reversed.
\<close>

function re_split :: "char option \<Rightarrow> string \<Rightarrow> string \<Rightarrow> string list" where
  "re_split prev acc [] = [rev acc]"
| "re_split prev acc (c # cs) =
     (if is_newline c then
        rev acc # re_split (Some (last (c # takeWhile is_newline cs))) [] (dropWhile is_newline cs)
      else if (case prev of None \<Rightarrow> False | Some p \<Rightarrow> is_terminal p) \<and> is_space c then
        rev acc # re_split (Some (last (c # takeWhile is_space cs))) [] (dropWhile is_space cs)
      else re_split (Some c) (c # acc) cs)"
  by pat_completeness auto
termination
  by (relation "measure (\<lambda>(prev, acc, s). length s)")
     (auto simp: less_Suc_eq_le length_dropWhile_le)

definition sentences_of :: "string \<Rightarrow> string list" where
  \<comment> \<open>\<open>[part.strip() for part in re.split(...) if part.strip()]\<close>\<close>
  "sentences_of prompt = map strip (filter (\<lambda>part. strip part \<noteq> []) (re_split None [] prompt))"

fun chunk_loop :: "string list \<Rightarrow> nat \<Rightarrow> nat \<Rightarrow> nat \<Rightarrow> string list" where
  \<comment> \<open>the \<open>for _ in range(segments)\<close> loop: \<open>k\<close> iterations left, \<open>cursor\<close> as in the source\<close>
  "chunk_loop sentences chunk_size 0 cursor = []"
| "chunk_loop sentences chunk_size (Suc k) cursor =
     (let chunk = take chunk_size (drop cursor sentences);
          chunk = (if chunk = [] then [last sentences] else chunk)
      in join '' '' chunk # chunk_loop sentences chunk_size k (cursor + chunk_size))"

text \<open>
  \<open>len(sentences) / segments\<close> divides two \<open>int\<close>s into a \<open>float\<close>. The model takes
  the exact quotient: below \<open>2 ^ 53\<close> sentence units the ceiling of the \<open>float\<close> is the
  ceiling of the exact quotient (\<open>ceiling_binary64_quotient\<close> below).
\<close>

definition split_prompt :: "string \<Rightarrow> int \<Rightarrow> py_error + string list" where
  "split_prompt prompt segments =
     (let sentences = sentences_of prompt
      in if sentences = [] then Inr (replicate (nat segments) (strip prompt))
         else if segments = 0 then Inl ZeroDivisionError
         else let chunk_size = max 1 \<lceil>(of_nat (length sentences) :: rat) / of_int segments\<rceil>
              in Inr (chunk_loop sentences (nat chunk_size) (nat segments) 0))"

section \<open>The segment planner\<close>

definition py_round :: "rat \<Rightarrow> int" where
  \<comment> \<open>\<open>round(x)\<close> with one argument: the nearest integer, a tie going to the even one\<close>
  "py_round x =
     (let f = \<lfloor>x\<rfloor>; r = x - of_int f
      in if r < 1 / 2 then f else if 1 / 2 < r then f + 1 else if even f then f else f + 1)"

definition py_round_ndigits :: "rat \<Rightarrow> nat \<Rightarrow> rat" where
  \<comment> \<open>\<open>round(x, ndigits)\<close> for \<open>ndigits > 0\<close>, before the result is made a number of the type\<close>
  "py_round_ndigits x ndigits = of_int (py_round (x * 10 ^ ndigits)) / 10 ^ ndigits"

definition exact :: "rat \<Rightarrow> rat" where
  \<comment> \<open>the arithmetic of \<open>fractions.Fraction\<close> rounds nothing\<close>
  "exact x = x"

function bit_length :: "int \<Rightarrow> nat" where
  "bit_length n = (if n \<le> 0 then 0 else Suc (bit_length (n div 2)))"
  by pat_completeness auto
termination
  by (relation "measure nat") auto

declare bit_length.simps [simp del]

definition pow2 :: "int \<Rightarrow> rat" where
  "pow2 e = (if 0 \<le> e then 2 ^ nat e else 1 / 2 ^ nat (- e))"

definition binary64 :: "rat \<Rightarrow> rat" where
  \<comment> \<open>the nearest number with a significand of 53 bits, a tie going to the even
      significand: \<open>l\<close> is the exponent of the leading bit of \<open>x\<close>\<close>
  "binary64 x =
     (if x = 0 then 0
      else let (p, q) = quotient_of \<bar>x\<bar>;
               k = int (bit_length p) - int (bit_length q);
               l = (if pow2 k \<le> \<bar>x\<bar> then k else k - 1);
               e = l - 52
           in of_int (py_round (x / pow2 e)) * pow2 e)"

function str_nat :: "nat \<Rightarrow> string" where
  "str_nat n = (if n < 10 then [char_of (48 + n)] else str_nat (n div 10) @ [char_of (48 + n mod 10)])"
  by pat_completeness auto
termination
  by (relation "measure id") auto

declare str_nat.simps [simp del]

definition str_int :: "int \<Rightarrow> string" where
  \<comment> \<open>how an f-string prints an \<open>int\<close>\<close>
  "str_int i = (if i < 0 then ''-'' @ str_nat (nat (- i)) else str_nat (nat i))"

text \<open>One entry of the plan: the dict with keys \<open>index\<close>, \<open>prompt\<close>, \<open>seconds\<close>, \<open>frames\<close>.\<close>

record segment =
  seg_index :: int
  seg_prompt :: string
  seg_seconds :: rat
  seg_frames :: int

definition duration_of :: "(rat \<Rightarrow> rat) \<Rightarrow> rat \<Rightarrow> rat \<Rightarrow> int \<Rightarrow> nat \<Rightarrow> rat" where
  "duration_of rnd total_seconds segment_seconds segments_count idx =
     (if int idx < segments_count - 1 then segment_seconds
      else max segment_seconds
             (rnd (total_seconds - rnd (segment_seconds * of_int (segments_count - 1)))))"

definition frames_of :: "(rat \<Rightarrow> rat) \<Rightarrow> rat \<Rightarrow> rat \<Rightarrow> int \<Rightarrow> int \<Rightarrow> py_error + int" where
  "frames_of rnd duration fps min_frames frame_step =
     (if frame_step = 0 then Inl ZeroDivisionError
      else Inr (max min_frames
                  (py_round (rnd (rnd (duration * fps) / of_int frame_step)) * frame_step)))"

definition continuity :: string where
  "continuity = ''. Houd stijl, personages en camera gelijkmatig).''"

definition segment_prompt_of :: "string \<Rightarrow> nat \<Rightarrow> int \<Rightarrow> string" where
  "segment_prompt_of chunk idx segments_count =
     chunk @ '' '' @ ''(Segment '' @ str_int (int idx + 1) @ ''/'' @ str_int segments_count @ continuity"

definition plan_entry ::
  "(rat \<Rightarrow> rat) \<Rightarrow> string list \<Rightarrow> rat \<Rightarrow> rat \<Rightarrow> int \<Rightarrow> rat \<Rightarrow> int \<Rightarrow> int \<Rightarrow> nat
   \<Rightarrow> py_error + segment" where
  \<comment> \<open>the body of the \<open>for idx in range(segments_count)\<close> loop\<close>
  "plan_entry rnd chunks total_seconds segment_seconds segments_count fps min_frames frame_step idx =
     (let duration = duration_of rnd total_seconds segment_seconds segments_count idx
      in case frames_of rnd duration fps min_frames frame_step of
           Inl e \<Rightarrow> Inl e
         | Inr frames \<Rightarrow>
             if length chunks \<le> idx then Inl IndexError
             else Inr \<lparr>seg_index = int idx + 1,
                       seg_prompt = segment_prompt_of (chunks ! idx) idx segments_count,
                       seg_seconds = rnd (py_round_ndigits duration 2),
                       seg_frames = frames\<rparr>)"

fun for_each :: "('a \<Rightarrow> py_error + 'b) \<Rightarrow> 'a list \<Rightarrow> py_error + 'b list" where
  \<comment> \<open>a loop that appends one result per item and stops at the first exception\<close>
  "for_each f [] = Inr []"
| "for_each f (x # xs) =
     (case f x of
        Inl e \<Rightarrow> Inl e
      | Inr y \<Rightarrow> (case for_each f xs of Inl e \<Rightarrow> Inl e | Inr ys \<Rightarrow> Inr (y # ys)))"

definition build_segments_plan ::
  "(rat \<Rightarrow> rat) \<Rightarrow> string \<Rightarrow> rat \<Rightarrow> rat \<Rightarrow> rat \<Rightarrow> int \<Rightarrow> int \<Rightarrow> py_error + segment list" where
  "build_segments_plan rnd prompt total_minutes segment_seconds fps min_frames frame_step =
     (let total_seconds = rnd (total_minutes * 60)
      in if segment_seconds = 0 then Inl ZeroDivisionError
         else let segments_count = max 1 \<lceil>rnd (total_seconds / segment_seconds)\<rceil>
              in case split_prompt prompt segments_count of
                   Inl e \<Rightarrow> Inl e
                 | Inr chunks \<Rightarrow>
                     for_each
                       (plan_entry rnd chunks total_seconds segment_seconds segments_count
                          fps min_frames frame_step)
                       [0..<nat segments_count])"

text \<open>
  The windows of sentence units that the loop of \<open>_split_prompt\<close> joins, one per
  iteration: \<open>chunk_loop\<close> before the \<open>" ".join\<close>.
\<close>

fun windows :: "string list \<Rightarrow> nat \<Rightarrow> nat \<Rightarrow> nat \<Rightarrow> string list list" where
  "windows sentences chunk_size 0 cursor = []"
| "windows sentences chunk_size (Suc k) cursor =
     (let chunk = take chunk_size (drop cursor sentences)
      in (if chunk = [] then [last sentences] else chunk)
         # windows sentences chunk_size k (cursor + chunk_size))"

text \<open>
  The frame count as the prose of the specification describes it: the raw frame count
  \<open>duration * fps\<close> rounded to the nearest integer, then divided by \<open>frame_step\<close> with
  truncation and multiplied back. It is compared with \<open>frames_of\<close> below.
\<close>

definition frames_by_truncation :: "rat \<Rightarrow> rat \<Rightarrow> int \<Rightarrow> int \<Rightarrow> int" where
  "frames_by_truncation duration fps min_frames frame_step =
     max min_frames (py_round (duration * fps) div frame_step * frame_step)"

section \<open>The host and the entry point \<open>_create_segments\<close>\<close>

text \<open>
  Values of the host's dictionaries. A dict is an association list in insertion order;
  \<open>PObj\<close> is a reference to an object of the host that the plugin only passes on.
\<close>

datatype pyval =
    PNone
  | PBool bool
  | PInt int
  | PFloat rat
  | PStr string
  | PList "pyval list"
  | PDict "(string \<times> pyval) list"
  | PObj string

type_synonym pydict = "(string \<times> pyval) list"

definition dict_get :: "pydict \<Rightarrow> string \<Rightarrow> pyval \<Rightarrow> pyval" where
  \<comment> \<open>\<open>d.get(k, dflt)\<close>\<close>
  "dict_get d k dflt = (case map_of d k of None \<Rightarrow> dflt | Some v \<Rightarrow> v)"

definition dict_setdefault :: "string \<Rightarrow> pyval \<Rightarrow> pydict \<Rightarrow> pydict" where
  \<comment> \<open>the dict after \<open>d.setdefault(k, v)\<close>\<close>
  "dict_setdefault k v d = (if map_of d k = None then d @ [(k, v)] else d)"

definition dict_pop :: "string \<Rightarrow> pydict \<Rightarrow> pydict" where
  \<comment> \<open>the dict after \<open>d.pop(k, None)\<close>\<close>
  "dict_pop k d = AList.delete k d"

definition dict_set :: "string \<Rightarrow> pyval \<Rightarrow> pydict \<Rightarrow> pydict" where
  \<comment> \<open>the dict after \<open>d[k] = v\<close>\<close>
  "dict_set k v d = AList.update k v d"

text \<open>
  The globals the plugin requests from the host in \<open>setup_ui\<close>. They are not code of
  the plugin, so they are parameters. \<open>add_video_task\<close> is given by what it does to the
  generation info (the host appends a job to its queue there); \<open>update_queue_data\<close>
  and \<open>queue_html_container\<close> may be absent (\<open>hasattr\<close>).
\<close>

record host =
  get_current_model_settings :: "pydict \<Rightarrow> pydict option"
  get_base_model_type :: "pyval \<Rightarrow> pyval"
  get_computed_fps :: "pyval \<Rightarrow> pyval \<Rightarrow> pyval \<Rightarrow> pyval \<Rightarrow> pyval"
  get_model_min_frames_and_step :: "pyval \<Rightarrow> int \<times> int \<times> pyval"
  add_video_task :: "pydict \<Rightarrow> pydict \<Rightarrow> pydict"
  update_queue_data :: "(pyval \<Rightarrow> pyval) option"
  has_queue_html_container :: bool

text \<open>
  What a call can change: the generation info \<open>get_gen_info(state)\<close>, the warnings shown
  with \<open>gr.Warning\<close>, and the keyword arguments of each call of \<open>add_video_task\<close>, in
  order.
\<close>

record world =
  gen_info :: pydict
  warnings :: "string list"
  tasks_submitted :: "pydict list"

text \<open>
  What the call returns to the user interface: the markdown of a warning (the warning sign
  and the message), with \<open>gr.update()\<close> for the queue when the flag is set, or the summary
  rendered from the plan, with the queue update if there is one.
\<close>

datatype response =
    Warning_Md string bool
  | Summary_Md "segment list" "pyval option"

definition validate_inputs :: "string \<Rightarrow> rat \<Rightarrow> rat \<Rightarrow> string option" where
  "validate_inputs prompt total_minutes segment_seconds =
     (if prompt = [] \<or> length (strip prompt) = 0 then Some ''Prompt mag niet leeg zijn.''
      else if total_minutes \<le> 0 then Some ''Totale duur moet groter dan nul zijn.''
      else if segment_seconds \<le> 0 then Some ''Segmentlengte moet groter dan nul zijn.''
      else None)"

definition build_error_response :: "string \<Rightarrow> bool \<Rightarrow> world \<Rightarrow> response \<times> world" where
  "build_error_response message include_queue w =
     (Warning_Md message include_queue, w\<lparr>warnings := warnings w @ [message]\<rparr>)"

fun number_of :: "pyval \<Rightarrow> rat option" where
  \<comment> \<open>the value when \<open>isinstance(v, (int, float))\<close>; a \<open>bool\<close> is an \<open>int\<close>\<close>
  "number_of (PInt i) = Some (of_int i)"
| "number_of (PFloat r) = Some r"
| "number_of (PBool b) = Some (if b then 1 else 0)"
| "number_of _ = None"

fun add_int :: "pyval \<Rightarrow> int \<Rightarrow> py_error + pyval" where
  \<comment> \<open>\<open>v + n\<close> for an \<open>int\<close> \<open>n\<close>\<close>
  "add_int (PInt i) n = Inr (PInt (i + n))"
| "add_int (PFloat r) n = Inr (PFloat (r + of_int n))"
| "add_int (PBool b) n = Inr (PInt ((if b then 1 else 0) + n))"
| "add_int _ n = Inl TypeError"

definition segment_settings_of ::
  "pydict \<Rightarrow> pyval \<Rightarrow> pyval \<Rightarrow> pyval \<Rightarrow> nat \<Rightarrow> segment \<Rightarrow> pydict" where
  \<comment> \<open>\<open>copy.deepcopy(settings)\<close> after the \<open>update\<close>; \<open>PObj ''state''\<close> is the state dict itself\<close>
  "segment_settings_of settings model_type model_filename fps total_segments segment =
     dict_set ''plugin_data''
       (PDict [(''auto_video_composer'',
          PDict [(''segment'', PInt (seg_index segment)),
                 (''total_segments'', PInt (int total_segments)),
                 (''segment_seconds'', PFloat (seg_seconds segment)),
                 (''fps'', fps)])])
    (dict_set ''model_filename'' model_filename
    (dict_set ''model_type'' model_type
    (dict_set ''state'' (PObj ''state'')
    (dict_set ''video_length'' (PInt (seg_frames segment))
    (dict_set ''prompt'' (PStr (seg_prompt segment)) settings)))))"

definition submit :: "host \<Rightarrow> pydict \<Rightarrow> world \<Rightarrow> world" where
  \<comment> \<open>one call \<open>self.add_video_task(**segment_settings)\<close>\<close>
  "submit h segment_settings w =
     w\<lparr>gen_info := add_video_task h segment_settings (gen_info w),
       tasks_submitted := tasks_submitted w @ [segment_settings]\<rparr>"

definition enqueue_plan ::
  "(rat \<Rightarrow> rat) \<Rightarrow> host \<Rightarrow> pydict \<Rightarrow> pyval \<Rightarrow> pyval \<Rightarrow> pyval \<Rightarrow> rat \<Rightarrow> int \<Rightarrow> int
   \<Rightarrow> string \<Rightarrow> rat \<Rightarrow> rat \<Rightarrow> world \<Rightarrow> (py_error + response) \<times> world" where
  \<comment> \<open>\<open>_create_segments\<close> from line 137 on, past every check; \<open>fps\<close> is the object the
      host returned and \<open>fps_value\<close> the number it is. The queue handed to
      \<open>update_queue_data\<close> is the list object that the host's \<open>add_video_task\<close> has
      appended to, read here from the generation info after the jobs are submitted.\<close>
  "enqueue_plan rnd h settings model_type model_filename fps fps_value min_frames frame_step
     prompt total_minutes segment_seconds w =
     (case build_segments_plan rnd prompt total_minutes segment_seconds fps_value
             min_frames frame_step of
        Inl e \<Rightarrow> (Inl e, w)
      | Inr segments_plan \<Rightarrow>
          let w1 = w\<lparr>gen_info := dict_setdefault ''queue'' (PList []) (gen_info w)\<rparr>;
              w2 = fold (\<lambda>segment. submit h
                     (segment_settings_of settings model_type model_filename fps
                        (length segments_plan) segment))
                     segments_plan w1
          in case add_int (dict_get (gen_info w2) ''prompts_max'' (PInt 0))
                    (int (length segments_plan)) of
               Inl e \<Rightarrow> (Inl e, w2)
             | Inr prompts_max \<Rightarrow>
                 let w3 = w2\<lparr>gen_info := dict_set ''prompts_max'' prompts_max (gen_info w2)\<rparr>;
                     queue_update =
                       (case update_queue_data h of
                          None \<Rightarrow> PNone
                        | Some f \<Rightarrow> f (dict_get (gen_info w3) ''queue'' PNone))
                 in (Inr (Summary_Md segments_plan
                           (if queue_update = PNone then None else Some queue_update)),
                     w3))"

definition queue_segments ::
  "(rat \<Rightarrow> rat) \<Rightarrow> host \<Rightarrow> pydict \<Rightarrow> string \<Rightarrow> rat \<Rightarrow> rat \<Rightarrow> world
   \<Rightarrow> (py_error + response) \<times> world" where
  \<comment> \<open>\<open>_create_segments\<close> from line 99 to line 135, after the validation of the user's input\<close>
  "queue_segments rnd h state prompt total_minutes segment_seconds w =
     (let has_queue_output = has_queue_html_container h
      in case get_current_model_settings h state of
           None \<Rightarrow>
             apfst Inr (build_error_response ''Kon de huidige modelinstellingen niet ophalen.'' False w)
         | Some current \<Rightarrow>
             let settings = dict_setdefault ''mode'' (PStr []) (dict_pop ''lset_name'' current);
                 model_type = dict_get state ''model_type'' PNone;
                 model_filename = dict_get state ''model_filename'' PNone;
                 base_model_type = get_base_model_type h model_type
             in if base_model_type = PNone then
                  apfst Inr (build_error_response
                    ''Kon de basismodelgegevens niet bepalen. Kies een geldig model en probeer opnieuw.''
                    has_queue_output w)
                else
                  let fps = get_computed_fps h (dict_get settings ''force_fps'' (PStr []))
                              base_model_type (dict_get settings ''video_guide'' PNone)
                              (dict_get settings ''video_source'' PNone);
                      no_fps = apfst Inr (build_error_response
                         ''Kon een geldige FPS-waarde niet bepalen. Controleer de modelinstellingen.''
                         has_queue_output w)
                  in case number_of fps of
                       None \<Rightarrow> no_fps
                     | Some fps_value \<Rightarrow>
                         if fps_value \<le> 0 then no_fps
                         else
                           let (min_frames, frame_step, _) =
                                 get_model_min_frames_and_step h base_model_type
                           in if min_frames \<le> 0 \<or> frame_step \<le> 0 then
                                apfst Inr (build_error_response
                                  ''Modelconfiguratie heeft ongeldige frame-waarden. Controleer het geselecteerde model.''
                                  has_queue_output w)
                              else
                                enqueue_plan rnd h settings model_type model_filename fps fps_value
                                  min_frames frame_step prompt total_minutes segment_seconds w)"

definition create_segments ::
  "(rat \<Rightarrow> rat) \<Rightarrow> host \<Rightarrow> pydict \<Rightarrow> string \<Rightarrow> rat \<Rightarrow> rat \<Rightarrow> world
   \<Rightarrow> (py_error + response) \<times> world" where
  \<comment> \<open>every message of \<open>validate_inputs\<close> is a non-empty string, so \<open>if errors:\<close> asks
      whether it returned one\<close>
  "create_segments rnd h state prompt total_minutes segment_seconds w =
     (case validate_inputs prompt total_minutes segment_seconds of
        Some errors \<Rightarrow> apfst Inr (build_error_response errors (has_queue_html_container h) w)
      | None \<Rightarrow> queue_segments rnd h state prompt total_minutes segment_seconds w)"

text \<open>
  The host that \<open>test_plugin.py\<close> stubs: settings with three keys, a base model type,
  8 frames per second, frame constants \<open>(8, 2)\<close>, an \<open>add_video_task\<close> that appends its
  keyword arguments to the queue of the generation info, an \<open>update_queue_data\<close> that
  wraps the queue, and a queue container. The stub would raise on a generation info
  without a queue; the plugin has created the key before its first call, and the model
  leaves such a dict as it is.
\<close>

definition test_host :: host where
  "test_host =
     \<lparr>get_current_model_settings =
        (\<lambda>s. Some [(''force_fps'', PStr []), (''video_guide'', PNone), (''video_source'', PNone)]),
      get_base_model_type = (\<lambda>model_type. PStr ''base-type''),
      get_computed_fps = (\<lambda>force_fps base_model_type video_guide video_source. PFloat 8),
      get_model_min_frames_and_step = (\<lambda>base_model_type. (8, 2, PNone)),
      add_video_task =
        (\<lambda>kwargs gen. case map_of gen ''queue'' of
                          Some (PList queue) \<Rightarrow> dict_set ''queue'' (PList (queue @ [PDict kwargs])) gen
                        | _ \<Rightarrow> gen),
      update_queue_data = Some (\<lambda>queue. PDict [(''queue'', queue)]),
      has_queue_html_container = True\<rparr>"

definition test_state :: pydict where
  "test_state = [(''model_type'', PStr ''type-a''), (''model_filename'', PStr ''model.safetensors'')]"

text \<open>
  The same host, except that its \<open>add_video_task\<close> keeps the jobs elsewhere and leaves
  the generation info alone: whatever changes in the generation info during a call with
  this host is the plugin's doing.
\<close>

definition silent_host :: host where
  "silent_host = test_host\<lparr>add_video_task := (\<lambda>kwargs gen. gen)\<rparr>"

section \<open>Splitting the prompt\<close>

lemma length_chunk_loop: "length (chunk_loop ss cs k cur) = k"
  by (induction k arbitrary: cur) (simp_all add: Let_def)

lemma chunk_loop_windows: "chunk_loop ss cs k cur = map (join '' '') (windows ss cs k cur)"
  by (induction k arbitrary: cur) (simp_all add: Let_def)

lemma windows_nonempty: "[] \<notin> set (windows ss cs k cur)"
  by (induction k arbitrary: cur) (auto simp: Let_def split: if_splits)

lemma div_add_self_Suc: "0 < (c::nat) \<Longrightarrow> (a + c) div c = Suc (a div c)"
  by simp

lemma ceil_div_step:
  fixes m cs :: nat
  assumes "0 < cs" "0 < m"
  shows "(m + cs - 1) div cs = Suc ((m - cs + cs - 1) div cs)"
proof (cases "cs \<le> m")
  case True
  then have "m + cs - 1 = (m - cs + cs - 1) + cs" using assms by linarith
  then show ?thesis using div_add_self_Suc [OF assms(1), of "m - cs + cs - 1"] by presburger
next
  case False
  then have z: "m - cs = 0" by simp
  have "cs \<le> m + cs - 1" "m + cs - 1 < cs + cs" using assms False by linarith+
  then obtain r where r: "m + cs - 1 = r + cs" "r < cs"
    by (metis add.commute le_Suc_ex nat_add_left_cancel_less)
  have "(m + cs - 1) div cs = 1" unfolding r(1) using r(2) assms(1) by simp
  moreover have "(m - cs + cs - 1) div cs = 0" using z assms(1) by simp
  ultimately show ?thesis by simp
qed

text \<open>
  The windows, concatenated, are the units from the cursor on, followed by one copy of the
  last unit for each window that starts past the end.
\<close>

lemma concat_windows:
  assumes "0 < cs"
  shows "concat (windows ss cs k cur) =
         take (k * cs) (drop cur ss) @ replicate (k - (length ss - cur + cs - 1) div cs) (last ss)"
  using assms
proof (induction k arbitrary: cur)
  case 0
  then show ?case by simp
next
  case (Suc k)
  show ?case
  proof (cases "length ss \<le> cur")
    case True
    then have e: "drop cur ss = []" "drop (cur + cs) ss = []"
      "length ss - cur = 0" "length ss - (cur + cs) = 0" by simp_all
    have d: "(cs - Suc 0) div cs = 0" using Suc.prems by simp
    show ?thesis using Suc.IH [OF Suc.prems, of "cur + cs"]
      by (simp add: Let_def e d)
  next
    case False
    then have pos: "0 < length ss - cur" by simp
    have tk: "take cs (drop cur ss) \<noteq> []" using False Suc.prems by simp
    have a: "take cs (drop cur ss) @ take (k * cs) (drop (cur + cs) ss) = take (Suc k * cs) (drop cur ss)"
      by (simp add: take_add add.commute)
    have b: "(length ss - cur + cs - 1) div cs = Suc ((length ss - (cur + cs) + cs - 1) div cs)"
      using ceil_div_step [OF Suc.prems pos] by (simp add: diff_diff_left)
    have "concat (windows ss cs (Suc k) cur) = take cs (drop cur ss) @ concat (windows ss cs k (cur + cs))"
      using tk by (simp add: Let_def)
    also have "\<dots> = take cs (drop cur ss) @ take (k * cs) (drop (cur + cs) ss)
         @ replicate (k - (length ss - (cur + cs) + cs - 1) div cs) (last ss)"
      using Suc.IH [OF Suc.prems, of "cur + cs"] by simp
    also have "\<dots> = take (Suc k * cs) (drop cur ss)
         @ replicate (Suc k - (length ss - cur + cs - 1) div cs) (last ss)"
      unfolding b using a by (simp only: append_assoc [symmetric] diff_Suc_Suc)
    finally show ?thesis .
  qed
qed

lemma join_append:
  "xs \<noteq> [] \<Longrightarrow> ys \<noteq> [] \<Longrightarrow> join sep (xs @ ys) = join sep xs @ sep @ join sep ys"
  by (induction sep xs rule: join.induct) (auto simp: neq_Nil_conv)

lemma join_join_concat:
  "[] \<notin> set ws \<Longrightarrow> join sep (map (join sep) ws) = join sep (concat ws)"
proof (induction ws rule: induct_list012)
  case (3 w w' ws)
  then have "concat (w' # ws) \<noteq> []" "w \<noteq> []" by auto
  then have "join sep (concat (w # w' # ws)) = join sep w @ sep @ join sep (concat (w' # ws))"
    using join_append [of w "concat (w' # ws)" sep] by simp
  then show ?case using 3 by simp
qed simp_all

text \<open>What \<open>" ".join\<close> returns, said without \<open>join\<close>: every unit followed by the
  separator is the joined text followed by the separator.\<close>

lemma join_sep:
  "w \<noteq> [] \<Longrightarrow> join sep w @ sep = concat (map (\<lambda>u. u @ sep) w)"
  by (induction sep w rule: join.induct) simp_all

lemma concat_join_sep:
  "[] \<notin> set ws \<Longrightarrow>
   concat (map (\<lambda>c. c @ sep) (map (join sep) ws)) = concat (map (\<lambda>u. u @ sep) (concat ws))"
proof (induction ws)
  case Nil
  then show ?case by simp
next
  case (Cons w ws)
  then have "w \<noteq> []" "[] \<notin> set ws" by auto
  then show ?case using Cons.IH join_sep [of w sep] by simp
qed

lemma chunk_size_covers:
  fixes n :: int and len :: nat
  assumes "1 \<le> n"
  shows "len \<le> nat n * nat (max 1 \<lceil>(of_nat len :: rat) / of_int n\<rceil>)"
proof -
  let ?c = "\<lceil>(of_nat len :: rat) / of_int n\<rceil>"
  have "(of_nat len :: rat) / of_int n \<le> of_int ?c" by (rule le_of_int_ceiling)
  moreover have "0 < (of_int n :: rat)" using assms by simp
  ultimately have "(of_nat len :: rat) \<le> of_int ?c * of_int n"
    by (simp only: pos_divide_le_eq)
  then have "int len \<le> ?c * n"
    by (metis of_int_le_iff of_int_mult of_int_of_nat_eq)
  also have "\<dots> \<le> max 1 ?c * n" using assms by (simp add: mult_right_mono)
  finally have "int len \<le> n * max 1 ?c" by (simp add: mult.commute)
  moreover have "int (nat n * nat (max 1 ?c)) = n * max 1 ?c" using assms by simp
  ultimately show ?thesis by linarith
qed

lemma split_prompt_length:
  "1 \<le> segments \<Longrightarrow>
   \<exists>chunks. split_prompt prompt segments = Inr chunks \<and> length chunks = nat segments"
  by (simp add: split_prompt_def Let_def length_chunk_loop)

text \<open>
  C3. For every prompt (the empty one too) and every segment count of at least one,
  \<open>_split_prompt\<close> raises nothing and returns a list of exactly that many strings.
\<close>

theorem split_prompt_total:
  assumes "1 \<le> segments"
  shows "\<exists>chunks. split_prompt prompt segments = Inr chunks \<and> int (length chunks) = segments"
  using assms by (simp add: split_prompt_def Let_def length_chunk_loop)

theorem split_prompt_total_witness:
  "(1::int) \<le> 2
   \<and> (\<exists>chunks. split_prompt ''Eerste zin. Tweede zin! Derde zin?'' 2 = Inr chunks
         \<and> int (length chunks) = 2)
   \<and> split_prompt ''Eerste zin. Tweede zin! Derde zin?'' 2
       = Inr [''Eerste zin. Tweede zin!'', ''Derde zin?'']"
proof -
  have h: "(1::int) \<le> 2" by simp
  have e: "split_prompt ''Eerste zin. Tweede zin! Derde zin?'' 2
       = Inr [''Eerste zin. Tweede zin!'', ''Derde zin?'']" by code_simp
  show ?thesis
    using h e split_prompt_total [OF h, of "''Eerste zin. Tweede zin! Derde zin?''"] by blast
qed

text \<open>
  C4. When the prompt has at least one sentence unit and the segment count is at least
  one, \<open>_split_prompt\<close> returns one chunk per window of units; a chunk is the units of its
  window in order with one space between two of them (each unit followed by a space gives
  the chunk followed by a space); the windows are never empty and, concatenated in order,
  they are the sentence units in their original order, each once, followed by \<open>k\<close> copies
  of the last unit, one for each trailing window that starts past the end; at least one
  window is not such a repeat. So the chunks, each followed by a space and concatenated,
  are the units and the repeats, each followed by a space.
\<close>

theorem split_prompt_covers:
  assumes "sentences_of prompt \<noteq> []" and "1 \<le> segments"
  defines "ss \<equiv> sentences_of prompt"
  defines "cs \<equiv> nat (max 1 \<lceil>(of_nat (length ss) :: rat) / of_int segments\<rceil>)"
  defines "ws \<equiv> windows ss cs (nat segments) 0"
  defines "k \<equiv> nat segments - (length ss + cs - 1) div cs"
  shows "\<exists>chunks. split_prompt prompt segments = Inr chunks
       \<and> chunks = map (join '' '') ws
       \<and> length chunks = length ws
       \<and> (\<forall>i < length ws. chunks ! i @ '' '' = concat (map (\<lambda>u. u @ '' '') (ws ! i)))
       \<and> concat ws = ss @ replicate k (last ss)
       \<and> [] \<notin> set ws
       \<and> concat (map (\<lambda>c. c @ '' '') chunks)
           = concat (map (\<lambda>u. u @ '' '') (ss @ replicate k (last ss)))
       \<and> join '' '' chunks = join '' '' (ss @ replicate k (last ss))
       \<and> k < nat segments"
proof -
  define chunks where "chunks = map (join '' '') ws"
  have cs: "0 < cs" unfolding cs_def by simp
  have cov: "length ss \<le> nat segments * cs"
    unfolding cs_def using chunk_size_covers [OF assms(2)] .
  have 1: "split_prompt prompt segments = Inr chunks"
    using assms(1,2) unfolding chunks_def ws_def cs_def ss_def
    by (simp add: split_prompt_def Let_def chunk_loop_windows)
  have 2: "concat ws = ss @ replicate k (last ss)"
    unfolding ws_def k_def using concat_windows [OF cs, of ss "nat segments" 0] cov by simp
  have 3: "[] \<notin> set ws" unfolding ws_def by (rule windows_nonempty)
  have 4: "join '' '' chunks = join '' '' (ss @ replicate k (last ss))"
    unfolding chunks_def using join_join_concat [OF 3] 2 by simp
  have 5: "length chunks = length ws" unfolding chunks_def by simp
  have 6: "\<forall>i < length ws. chunks ! i @ '' '' = concat (map (\<lambda>u. u @ '' '') (ws ! i))"
  proof (intro allI impI)
    fix i assume i: "i < length ws"
    then have "ws ! i \<noteq> []" using 3 by (metis nth_mem)
    then show "chunks ! i @ '' '' = concat (map (\<lambda>u. u @ '' '') (ws ! i))"
      unfolding chunks_def using i by (simp add: join_sep)
  qed
  have 7: "concat (map (\<lambda>c. c @ '' '') chunks)
           = concat (map (\<lambda>u. u @ '' '') (ss @ replicate k (last ss)))"
    unfolding chunks_def concat_join_sep [OF 3] 2 ..
  have "0 < length ss" using assms(1) unfolding ss_def by simp
  then have "cs \<le> length ss + cs - 1" by linarith
  then have "0 < (length ss + cs - 1) div cs" using cs by (simp only: div_greater_zero_iff)
  moreover have "0 < nat segments" using assms(2) by simp
  ultimately have 8: "k < nat segments" unfolding k_def by linarith
  show ?thesis
    by (intro exI [of _ chunks] conjI) (rule 1 chunks_def 5 6 2 3 7 4 8)+
qed

theorem split_prompt_covers_witness:
  "sentences_of ''Eerste zin. Tweede zin! Derde zin?'' = [''Eerste zin.'', ''Tweede zin!'', ''Derde zin?'']
   \<and> (1::int) \<le> 2
   \<and> split_prompt ''Eerste zin. Tweede zin! Derde zin?'' 2
       = Inr [''Eerste zin. Tweede zin!'', ''Derde zin?'']
   \<and> windows (sentences_of ''Eerste zin. Tweede zin! Derde zin?'') 2 2 0
       = [[''Eerste zin.'', ''Tweede zin!''], [''Derde zin?'']]
   \<and> ''Eerste zin. Tweede zin!'' @ '' '' = concat (map (\<lambda>u. u @ '' '') [''Eerste zin.'', ''Tweede zin!''])
   \<and> concat (windows (sentences_of ''Eerste zin. Tweede zin! Derde zin?'') 2 2 0)
       = sentences_of ''Eerste zin. Tweede zin! Derde zin?''
         @ replicate 0 (last (sentences_of ''Eerste zin. Tweede zin! Derde zin?''))
   \<and> (1::int) \<le> 5
   \<and> split_prompt ''Eerste zin. Tweede zin! Derde zin?'' 5
       = Inr [''Eerste zin.'', ''Tweede zin!'', ''Derde zin?'', ''Derde zin?'', ''Derde zin?'']
   \<and> concat (windows (sentences_of ''Eerste zin. Tweede zin! Derde zin?'') 1 5 0)
       = sentences_of ''Eerste zin. Tweede zin! Derde zin?''
         @ replicate 2 (last (sentences_of ''Eerste zin. Tweede zin! Derde zin?''))
   \<and> sentences_of (''Een.'' @ [CHR 0x0A] @ ''  Twee?'' @ [CHR 0x09] @ ''Drie   vier! '')
       = [''Een.'', ''Twee?'', ''Drie   vier!'']
   \<and> split_prompt (''Een.'' @ [CHR 0x0A] @ ''  Twee?'' @ [CHR 0x09] @ ''Drie   vier! '') 2
       = Inr [''Een. Twee?'', ''Drie   vier!'']"
proof -
  let ?p = "''Eerste zin. Tweede zin! Derde zin?''"
  let ?q = "''Een.'' @ [CHR 0x0A] @ ''  Twee?'' @ [CHR 0x09] @ ''Drie   vier! ''"
  have s: "sentences_of ?p = [''Eerste zin.'', ''Tweede zin!'', ''Derde zin?'']" by code_simp
  then have ne: "sentences_of ?p \<noteq> []" by simp
  have l: "length (sentences_of ?p) = 3" unfolding s by simp
  have n2: "(1::int) \<le> 2" and n5: "(1::int) \<le> 5" by simp_all
  have c2: "nat (max 1 \<lceil>(of_nat (length (sentences_of ?p)) :: rat) / of_int 2\<rceil>) = 2"
    unfolding l by code_simp
  have c5: "nat (max 1 \<lceil>(of_nat (length (sentences_of ?p)) :: rat) / of_int 5\<rceil>) = 1"
    unfolding l by code_simp
  have e2: "split_prompt ?p 2 = Inr [''Eerste zin. Tweede zin!'', ''Derde zin?'']" by code_simp
  have e5: "split_prompt ?p 5
       = Inr [''Eerste zin.'', ''Tweede zin!'', ''Derde zin?'', ''Derde zin?'', ''Derde zin?'']"
    by code_simp
  have w2: "windows (sentences_of ?p) 2 2 0 = [[''Eerste zin.'', ''Tweede zin!''], [''Derde zin?'']]"
    by code_simp
  have t2: "nat 2 = 2" and t5: "nat 5 = 5" by simp_all
  obtain chunks where a: "split_prompt ?p 2 = Inr chunks"
    and b: "\<forall>i < length (windows (sentences_of ?p) 2 2 0).
              chunks ! i @ '' '' = concat (map (\<lambda>u. u @ '' '') (windows (sentences_of ?p) 2 2 0 ! i))"
    and c: "concat (windows (sentences_of ?p) 2 2 0)
            = sentences_of ?p @ replicate (2 - (length (sentences_of ?p) + 2 - 1) div 2)
                                  (last (sentences_of ?p))"
    using split_prompt_covers [OF ne n2] unfolding c2 t2 by (elim exE conjE) (rule that; assumption)
  have ch: "chunks = [''Eerste zin. Tweede zin!'', ''Derde zin?'']" using a e2 by simp
  have j: "''Eerste zin. Tweede zin!'' @ '' ''
           = concat (map (\<lambda>u. u @ '' '') [''Eerste zin.'', ''Tweede zin!''])"
    using b unfolding w2 ch by (simp del: append.simps concat.simps list.map) fastforce
  have k2: "concat (windows (sentences_of ?p) 2 2 0)
       = sentences_of ?p @ replicate 0 (last (sentences_of ?p))"
    using c unfolding l by simp
  obtain chunks' where c': "concat (windows (sentences_of ?p) 1 5 0)
            = sentences_of ?p @ replicate (5 - (length (sentences_of ?p) + 1 - 1) div 1)
                                  (last (sentences_of ?p))"
    using split_prompt_covers [OF ne n5] unfolding c5 t5 by (elim exE conjE) (rule that; assumption)
  have k5: "concat (windows (sentences_of ?p) 1 5 0)
       = sentences_of ?p @ replicate 2 (last (sentences_of ?p))"
    using c' unfolding l by simp
  have sq: "sentences_of ?q = [''Een.'', ''Twee?'', ''Drie   vier!'']" by code_simp
  have eq: "split_prompt ?q 2 = Inr [''Een. Twee?'', ''Drie   vier!'']" by code_simp
  show ?thesis
    by (intro conjI) (rule s n2 e2 w2 j k2 n5 e5 k5 sq eq)+
qed

section \<open>Rounding\<close>

lemma py_round_cases:
  fixes x :: rat
  defines "r \<equiv> x - of_int \<lfloor>x\<rfloor>"
  shows "(r < 1 / 2 \<and> py_round x = \<lfloor>x\<rfloor>)
       \<or> (1 / 2 < r \<and> py_round x = \<lfloor>x\<rfloor> + 1)
       \<or> (r = 1 / 2 \<and> even (py_round x) \<and> (py_round x = \<lfloor>x\<rfloor> \<or> py_round x = \<lfloor>x\<rfloor> + 1))"
  unfolding r_def py_round_def Let_def by auto

lemma py_round_nearest: "\<bar>of_int (py_round x) - x\<bar> \<le> 1 / 2"
proof -
  have "0 \<le> x - of_int \<lfloor>x\<rfloor>" "x - of_int \<lfloor>x\<rfloor> < 1" by linarith+
  then show ?thesis using py_round_cases [of x] by auto
qed

lemma py_round_tie_even: "\<bar>of_int (py_round x) - x\<bar> = 1 / 2 \<Longrightarrow> even (py_round x)"
proof -
  assume t: "\<bar>of_int (py_round x) - x\<bar> = 1 / 2"
  have "0 \<le> x - of_int \<lfloor>x\<rfloor>" "x - of_int \<lfloor>x\<rfloor> < 1" by linarith+
  then show ?thesis using py_round_cases [of x] t by auto
qed

lemma py_round_of_int: "py_round (of_int k) = k"
  by (simp add: py_round_def)

lemma py_round_ndigits_exact:
  assumes "x * 100 = of_int k"
  shows "py_round_ndigits x 2 = x"
proof -
  have "py_round_ndigits x 2 = of_int (py_round (x * 100)) / 100"
    by (simp add: py_round_ndigits_def)
  also have "\<dots> = x * 100 / 100" unfolding assms py_round_of_int ..
  finally show ?thesis by simp
qed

lemma py_round_ndigits_close: "\<bar>py_round_ndigits x 2 - x\<bar> \<le> 1 / 200"
proof -
  have "\<bar>of_int (py_round (x * 100)) - x * 100\<bar> \<le> 1 / 2" by (rule py_round_nearest)
  then have "\<bar>(of_int (py_round (x * 100)) - x * 100) / 100\<bar> \<le> (1 / 2) / 100"
    by (simp only: abs_divide abs_numeral divide_le_cancel) simp
  moreover have "(of_int (py_round (x * 100)) - x * 100) / 100 = py_round_ndigits x 2 - x"
    by (simp add: py_round_ndigits_def diff_divide_distrib)
  ultimately show ?thesis by simp
qed

section \<open>The plan\<close>

lemma for_each_map:
  "(\<And>x. x \<in> set xs \<Longrightarrow> f x = Inr (g x)) \<Longrightarrow> for_each f xs = Inr (map g xs)"
  by (induction xs) simp_all

lemma duration_before_last:
  "int idx < segments_count - 1 \<Longrightarrow>
   duration_of rnd total_seconds segment_seconds segments_count idx = segment_seconds"
  by (simp add: duration_of_def)

lemma duration_ge_nominal:
  "segment_seconds \<le> duration_of rnd total_seconds segment_seconds segments_count idx"
  by (simp add: duration_of_def)

text \<open>
  In exact arithmetic the remainder left for the last segment never exceeds one nominal
  segment, so every segment has the nominal duration.
\<close>

lemma remainder_le_nominal:
  fixes total_seconds segment_seconds :: rat
  assumes "0 < segment_seconds"
  shows "total_seconds - segment_seconds * of_int (max 1 \<lceil>total_seconds / segment_seconds\<rceil> - 1)
         \<le> segment_seconds"
proof -
  let ?n = "max 1 \<lceil>total_seconds / segment_seconds\<rceil>"
  have "total_seconds / segment_seconds \<le> of_int \<lceil>total_seconds / segment_seconds\<rceil>"
    by (rule le_of_int_ceiling)
  also have "\<dots> \<le> of_int ?n" by simp
  finally have "total_seconds \<le> of_int ?n * segment_seconds"
    using assms by (simp only: pos_divide_le_eq)
  then show ?thesis by (simp add: algebra_simps)
qed

lemma duration_nominal:
  assumes "0 < segment_seconds"
  shows "duration_of exact total_seconds segment_seconds
           (max 1 \<lceil>exact (total_seconds / segment_seconds)\<rceil>) idx = segment_seconds"
  unfolding duration_of_def exact_def using remainder_le_nominal [OF assms, of total_seconds]
  by (simp add: max_def)

text \<open>
  With a segment length and a frame step other than zero the planner raises nothing, and
  its plan has one entry per index, each computed from the index alone.
\<close>

lemma plan_shape:
  fixes total_minutes segment_seconds :: rat and rnd :: "rat \<Rightarrow> rat"
  assumes "segment_seconds \<noteq> 0" and "frame_step \<noteq> 0"
  defines "n \<equiv> max 1 \<lceil>rnd (rnd (total_minutes * 60) / segment_seconds)\<rceil>"
  defines "d \<equiv> duration_of rnd (rnd (total_minutes * 60)) segment_seconds n"
  shows "\<exists>chunks. split_prompt prompt n = Inr chunks \<and> length chunks = nat n
     \<and> build_segments_plan rnd prompt total_minutes segment_seconds fps min_frames frame_step
       = Inr (map (\<lambda>idx.
           \<lparr>seg_index = int idx + 1,
            seg_prompt = segment_prompt_of (chunks ! idx) idx n,
            seg_seconds = rnd (py_round_ndigits (d idx) 2),
            seg_frames = max min_frames
              (py_round (rnd (rnd (d idx * fps) / of_int frame_step)) * frame_step)\<rparr>) [0..<nat n])"
proof -
  have "1 \<le> n" unfolding n_def by simp
  then obtain chunks where c: "split_prompt prompt n = Inr chunks" "length chunks = nat n"
    using split_prompt_length by blast
  have "for_each (plan_entry rnd chunks (rnd (total_minutes * 60)) segment_seconds n fps
                    min_frames frame_step) [0..<nat n]
      = Inr (map (\<lambda>idx.
           \<lparr>seg_index = int idx + 1,
            seg_prompt = segment_prompt_of (chunks ! idx) idx n,
            seg_seconds = rnd (py_round_ndigits (d idx) 2),
            seg_frames = max min_frames
              (py_round (rnd (rnd (d idx * fps) / of_int frame_step)) * frame_step)\<rparr>) [0..<nat n])"
    unfolding d_def
    by (rule for_each_map) (simp add: plan_entry_def frames_of_def Let_def assms(2) c(2))
  then have "build_segments_plan rnd prompt total_minutes segment_seconds fps min_frames frame_step
      = Inr (map (\<lambda>idx.
           \<lparr>seg_index = int idx + 1,
            seg_prompt = segment_prompt_of (chunks ! idx) idx n,
            seg_seconds = rnd (py_round_ndigits (d idx) 2),
            seg_frames = max min_frames
              (py_round (rnd (rnd (d idx * fps) / of_int frame_step)) * frame_step)\<rparr>) [0..<nat n])"
    using assms(1) c(1) unfolding n_def by (simp add: build_segments_plan_def Let_def)
  with c show ?thesis by blast
qed

section \<open>The rounding of \<open>float\<close>\<close>

lemma pow2_powi: "pow2 e = 2 powi e"
  unfolding pow2_def power_int_def
  by (simp add: power_inverse [symmetric] inverse_eq_divide power_one_over)

lemma pow2_pos: "0 < pow2 e"
  by (simp add: pow2_powi)

lemma pow2_add: "pow2 (a + b) = pow2 a * pow2 b"
  by (simp add: pow2_powi power_int_add)

lemma pow2_mono: "a \<le> b \<Longrightarrow> pow2 a \<le> pow2 b"
  by (simp add: pow2_powi power_int_increasing)

lemma pow2_nat: "pow2 (int n) = 2 ^ n"
  by (simp add: pow2_powi)

lemma bit_length_bounds:
  "0 < n \<Longrightarrow> 2 ^ (bit_length n - 1) \<le> n \<and> n < 2 ^ bit_length n"
proof (induction n rule: bit_length.induct)
  case (1 n)
  show ?case
  proof (cases "n = 1")
    case True
    then show ?thesis by (simp add: bit_length.simps [of 1] bit_length.simps [of 0])
  next
    case False
    with "1.prems" have h: "0 < n div 2" "\<not> n \<le> 0" by auto
    from "1.IH" [OF h(2) h(1)]
    have ih: "2 ^ (bit_length (n div 2) - 1) \<le> n div 2" "n div 2 < 2 ^ bit_length (n div 2)"
      by auto
    have pos: "0 < bit_length (n div 2)" using h(1) by (simp add: bit_length.simps [of "n div 2"])
    have b: "bit_length n = Suc (bit_length (n div 2))" using h(2) by (simp add: bit_length.simps [of n])
    have "2 ^ bit_length (n div 2) = 2 * (2::int) ^ (bit_length (n div 2) - 1)"
      using pos by (cases "bit_length (n div 2)") simp_all
    then have lo: "2 ^ bit_length (n div 2) \<le> n" using ih(1) by linarith
    have hi: "n < 2 * 2 ^ bit_length (n div 2)" using ih(2) by linarith
    show ?thesis unfolding b using lo hi by simp
  qed
qed

lemma bit_length_pow2:
  assumes "0 < n"
  shows "pow2 (int (bit_length n) - 1) \<le> of_int n" and "of_int n < pow2 (int (bit_length n))"
proof -
  note b = bit_length_bounds [OF assms]
  have "0 < bit_length n" using assms by (simp add: bit_length.simps [of n])
  then have e: "int (bit_length n) - 1 = int (bit_length n - 1)" by linarith
  have "pow2 (int (bit_length n) - 1) = 2 ^ (bit_length n - 1)" unfolding e by (rule pow2_nat)
  also have "\<dots> = of_int (2 ^ (bit_length n - 1))" by simp
  also have "\<dots> \<le> of_int n" using b by (simp only: of_int_le_iff)
  finally show "pow2 (int (bit_length n) - 1) \<le> of_int n" .
  have "(of_int n :: rat) < of_int (2 ^ bit_length n)" using b by (simp only: of_int_less_iff)
  also have "\<dots> = 2 ^ bit_length n" by simp
  also have "\<dots> = pow2 (int (bit_length n))" by (rule pow2_nat [symmetric])
  finally show "of_int n < pow2 (int (bit_length n))" .
qed

text \<open>The leading bit that \<open>binary64\<close> computes, and its relative error.\<close>

lemma leading_bit:
  fixes x :: rat
  assumes "0 < x" and "quotient_of x = (p, q)"
  defines "k \<equiv> int (bit_length p) - int (bit_length q)"
  defines "l \<equiv> (if pow2 k \<le> x then k else k - 1)"
  shows "pow2 l \<le> x \<and> x < pow2 (l + 1)"
proof -
  have q: "0 < q" using assms(2) by (rule quotient_of_denom_pos)
  have x: "x = of_int p / of_int q" using assms(2) by (rule quotient_of_div)
  have p: "0 < p" using assms(1) q unfolding x by (simp add: zero_less_divide_iff)
  note plo = bit_length_pow2 (1) [OF p] and phi = bit_length_pow2 (2) [OF p]
    and qlo = bit_length_pow2 (1) [OF q] and qhi = bit_length_pow2 (2) [OF q]
  have qr: "0 < (of_int q :: rat)" using q by simp
  have lo: "pow2 (k - 1) < x"
  proof -
    have "pow2 (k - 1) * of_int q < pow2 (k - 1) * pow2 (int (bit_length q))"
      using qhi pow2_pos by (simp add: mult_strict_left_mono)
    also have "\<dots> = pow2 (int (bit_length p) - 1)"
      unfolding pow2_add [symmetric] k_def by (simp add: algebra_simps)
    also have "\<dots> \<le> of_int p" by (rule plo)
    finally show ?thesis unfolding x using qr by (simp add: pos_less_divide_eq)
  qed
  have hi: "x < pow2 (k + 1)"
  proof -
    have "of_int p < pow2 (int (bit_length p))" by (rule phi)
    also have "\<dots> = pow2 (k + 1) * pow2 (int (bit_length q) - 1)"
      unfolding pow2_add [symmetric] k_def by (simp add: algebra_simps)
    also have "\<dots> \<le> pow2 (k + 1) * of_int q"
      using qlo pow2_pos [of "k + 1"] by (simp add: mult_left_mono)
    finally show ?thesis unfolding x using qr by (simp add: pos_divide_less_eq)
  qed
  show ?thesis unfolding l_def using lo hi by (auto simp: not_le less_imp_le)
qed

lemma binary64_error:
  assumes "0 < x"
  shows "\<bar>binary64 x - x\<bar> \<le> x / 2 ^ 53"
proof -
  obtain p q where pq: "quotient_of \<bar>x\<bar> = (p, q)" by (cases "quotient_of \<bar>x\<bar>")
  define k where "k = int (bit_length p) - int (bit_length q)"
  define l where "l = (if pow2 k \<le> \<bar>x\<bar> then k else k - 1)"
  have ax: "\<bar>x\<bar> = x" using assms by simp
  have lb: "pow2 l \<le> x" "x < pow2 (l + 1)"
    using leading_bit [of x p q] assms pq unfolding ax l_def k_def by auto
  have b: "binary64 x = of_int (py_round (x / pow2 (l - 52))) * pow2 (l - 52)"
    using assms pq unfolding binary64_def l_def k_def by (simp add: Let_def)
  have pe: "0 < pow2 (l - 52)" by (rule pow2_pos)
  have "\<bar>binary64 x - x\<bar> = \<bar>of_int (py_round (x / pow2 (l - 52))) - x / pow2 (l - 52)\<bar> * pow2 (l - 52)"
  proof -
    have "binary64 x - x = (of_int (py_round (x / pow2 (l - 52))) - x / pow2 (l - 52)) * pow2 (l - 52)"
      unfolding b using pe by (simp add: algebra_simps)
    then show ?thesis using pe by (simp add: abs_mult)
  qed
  also have "\<dots> \<le> (1 / 2) * pow2 (l - 52)"
    using py_round_nearest [of "x / pow2 (l - 52)"] pe by (simp add: mult_right_mono)
  also have "\<dots> = pow2 l / 2 ^ 53"
  proof -
    have "pow2 l = pow2 (l - 52) * pow2 52" unfolding pow2_add [symmetric] by simp
    also have "pow2 52 = 2 ^ 52" using pow2_nat [of 52] by simp
    finally show ?thesis by simp
  qed
  also have "\<dots> \<le> x / 2 ^ 53" using lb(1) by (simp add: divide_right_mono)
  finally show ?thesis .
qed


lemma binary64_of_int:
  assumes "0 < k" and "k < 2 ^ 53"
  shows "binary64 (of_int k) = of_int k"
proof -
  let ?x = "of_int k :: rat"
  have x: "0 < ?x" using assms(1) by simp
  obtain p q where pq: "quotient_of \<bar>?x\<bar> = (p, q)" by (cases "quotient_of \<bar>?x\<bar>")
  define j where "j = int (bit_length p) - int (bit_length q)"
  define l where "l = (if pow2 j \<le> \<bar>?x\<bar> then j else j - 1)"
  have ax: "\<bar>?x\<bar> = ?x" using x by simp
  have lb: "pow2 l \<le> ?x"
    using leading_bit [of ?x p q] x pq unfolding ax l_def j_def by auto
  have b: "binary64 ?x = of_int (py_round (?x / pow2 (l - 52))) * pow2 (l - 52)"
    using x pq unfolding binary64_def l_def j_def by (simp add: Let_def)
  have "pow2 l < pow2 53"
  proof -
    have "?x < of_int (2 ^ 53)" using assms(2) by (simp only: of_int_less_iff)
    also have "\<dots> = pow2 53" using pow2_nat [of 53] by simp
    finally show ?thesis using lb by simp
  qed
  then have "\<not> 53 \<le> l" using pow2_mono [of 53 l] by linarith
  then have "l < 53" by simp
  then have le: "l - 52 \<le> 0" by simp
  then have pe: "pow2 (l - 52) = 1 / 2 ^ nat (52 - l)" by (auto simp: pow2_def)
  have m: "?x / pow2 (l - 52) = of_int (k * 2 ^ nat (52 - l))" unfolding pe by simp
  show ?thesis unfolding b m py_round_of_int unfolding pe by simp
qed

text \<open>
  The ceiling that \<open>_split_prompt\<close> takes of \<open>len(sentences) / segments\<close>, a \<open>float\<close>,
  is the ceiling of the exact quotient for fewer than \<open>2 ^ 53\<close> sentence units.
\<close>

lemma ceiling_binary64_quotient:
  fixes a b :: nat
  assumes "0 < a" and "a < 2 ^ 53" and "0 < b"
  shows "\<lceil>binary64 (of_nat a / of_nat b)\<rceil> = \<lceil>(of_nat a / of_nat b :: rat)\<rceil>"
proof -
  let ?q = "of_nat a / of_nat b :: rat"
  let ?c = "\<lceil>?q\<rceil>"
  have q: "0 < ?q" using assms(1,3) by simp
  have br: "0 < (of_nat b :: rat)" using assms(3) by simp
  have err: "\<bar>binary64 ?q - ?q\<bar> \<le> ?q / 2 ^ 53" by (rule binary64_error [OF q])
  have small: "?q / 2 ^ 53 < 1 / of_nat b"
  proof -
    have "(of_nat a :: rat) < of_nat (2 ^ 53)" using assms(2) by (simp only: of_nat_less_iff)
    then have "(of_nat a :: rat) / 2 ^ 53 < 1" by simp
    then have "(of_nat a :: rat) / 2 ^ 53 / of_nat b < 1 / of_nat b"
      using br by (simp only: divide_strict_right_mono)
    then show ?thesis by (simp add: field_simps)
  qed
  show ?thesis
  proof (cases "?q = of_int ?c")
    case True
    have "0 < ?c" using q by simp
    moreover have "?c < 2 ^ 53"
    proof -
      have "?q \<le> of_nat a" using assms(3) q by (simp add: field_simps mult_le_cancel_left1)
      then have "?c \<le> int a" by (simp add: ceiling_le_iff)
      also have "int a < 2 ^ 53" using assms(2) by simp
      finally show ?thesis .
    qed
    ultimately have "binary64 (of_int ?c) = of_int ?c" by (rule binary64_of_int)
    then show ?thesis using True by simp
  next
    case False
    have up: "?q \<le> of_int ?c" by (rule le_of_int_ceiling)
    have lo: "of_int ?c - 1 < ?q" using ceiling_correct [of ?q] by simp
    have g1: "1 / of_nat b \<le> of_int ?c - ?q"
    proof -
      have "of_int ?c * of_nat b - of_nat a = (of_int (?c * int b - int a) :: rat)" by simp
      moreover have "0 < of_int ?c * of_nat b - (of_nat a :: rat)"
      proof -
        have "?q < of_int ?c" using up False by linarith
        then have "of_nat a < of_int ?c * (of_nat b :: rat)" using br by (simp only: pos_divide_less_eq)
        then show ?thesis by simp
      qed
      ultimately have "0 < ?c * int b - int a" by (simp only: of_int_0_less_iff)
      then have "1 \<le> ?c * int b - int a" by simp
      then have "(1 :: rat) \<le> of_int (?c * int b - int a)" by (simp only: of_int_1_le_iff)
      then have "(1 :: rat) \<le> of_int ?c * of_nat b - of_nat a" by simp
      then have "1 / of_nat b \<le> (of_int ?c * of_nat b - of_nat a) / (of_nat b :: rat)"
        using br by (simp only: divide_right_mono less_imp_le)
      then show ?thesis using br by (simp add: diff_divide_distrib)
    qed
    have g2: "1 / of_nat b \<le> ?q - (of_int ?c - 1)"
    proof -
      have "of_nat a - (of_int ?c - 1) * of_nat b = (of_int (int a - (?c - 1) * int b) :: rat)" by simp
      moreover have "0 < (of_nat a :: rat) - (of_int ?c - 1) * of_nat b"
      proof -
        have "(of_int ?c - 1) * of_nat b < (of_nat a :: rat)"
          using lo br by (simp only: pos_less_divide_eq)
        then show ?thesis by simp
      qed
      ultimately have "0 < int a - (?c - 1) * int b" by (simp only: of_int_0_less_iff)
      then have "1 \<le> int a - (?c - 1) * int b" by simp
      then have "(1 :: rat) \<le> of_int (int a - (?c - 1) * int b)" by (simp only: of_int_1_le_iff)
      then have "(1 :: rat) \<le> of_nat a - (of_int ?c - 1) * of_nat b" by simp
      then have "1 / of_nat b \<le> (of_nat a - (of_int ?c - 1) * of_nat b) / (of_nat b :: rat)"
        using br by (simp only: divide_right_mono less_imp_le)
      then show ?thesis using br by (simp add: diff_divide_distrib)
    qed
    have "binary64 ?q \<le> of_int ?c" using err small g1 by linarith
    moreover have "of_int ?c - 1 < binary64 ?q" using err small g2 by linarith
    ultimately show ?thesis by (simp add: ceiling_eq_iff)
  qed
qed

text \<open>
  The quotient \<open>total_minutes * 60 / segment_seconds\<close> as \<open>float\<close> arithmetic computes it,
  two roundings away from the exact one, is less than one away from it below \<open>2 ^ 51\<close>.
\<close>

lemma binary64_quotient_close:
  fixes total_minutes segment_seconds :: rat
  assumes "0 < total_minutes" and "0 < segment_seconds"
    and "total_minutes * 60 / segment_seconds < 2 ^ 51"
  shows "\<bar>binary64 (binary64 (total_minutes * 60) / segment_seconds)
          - total_minutes * 60 / segment_seconds\<bar> < 1"
proof -
  define a where "a = total_minutes * 60"
  define a' where "a' = binary64 a"
  define q where "q = a / segment_seconds"
  define q' where "q' = a' / segment_seconds"
  define e :: rat where "e = 1 / 2 ^ 53"
  have e: "0 < e" "e < 1" "3 * e * 2 ^ 51 < 1" unfolding e_def by simp_all
  have a: "0 < a" unfolding a_def using assms(1) by simp
  have q: "0 < q" unfolding q_def using a assms(2) by simp
  have qb: "q < 2 ^ 51" unfolding q_def a_def by (rule assms(3))
  have ea: "\<bar>a' - a\<bar> \<le> a * e"
    unfolding a'_def e_def using binary64_error [OF a] by simp
  then have "a - a * e \<le> a'" by linarith
  moreover have "0 < a - a * e"
  proof -
    have "a * e < a * 1" using a e(2) by (simp only: mult_strict_left_mono)
    then show ?thesis by simp
  qed
  ultimately have a': "0 < a'" by linarith
  have q': "0 < q'" unfolding q'_def using a' assms(2) by simp
  have eq: "\<bar>q' - q\<bar> \<le> q * e"
  proof -
    have "q' - q = (a' - a) / segment_seconds" unfolding q'_def q_def by (simp add: diff_divide_distrib)
    then have "\<bar>q' - q\<bar> = \<bar>a' - a\<bar> / segment_seconds" using assms(2) by (simp add: abs_divide)
    also have "\<dots> \<le> a * e / segment_seconds" using ea assms(2) by (simp add: divide_right_mono)
    also have "\<dots> = q * e" unfolding q_def by simp
    finally show ?thesis .
  qed
  have "\<bar>binary64 q' - q'\<bar> \<le> q' * e"
    unfolding e_def using binary64_error [OF q'] by simp
  moreover have "q' \<le> q + q * e" using eq by linarith
  then have "q' * e \<le> (q + q * e) * e" using e(1) by (simp only: mult_right_mono less_imp_le)
  ultimately have "\<bar>binary64 q' - q'\<bar> \<le> (q + q * e) * e" by linarith
  moreover have "q * e * e \<le> q * e * 1" using q e by (simp only: mult_left_mono less_imp_le mult_pos_pos)
  ultimately have "\<bar>binary64 q' - q\<bar> \<le> 3 * (q * e)" using eq by (simp add: algebra_simps)
  also have "3 * (q * e) = 3 * e * q" by simp
  also have "\<dots> < 3 * e * 2 ^ 51" using qb e(1) by (simp only: mult_strict_left_mono mult_pos_pos zero_less_numeral)
  finally have "\<bar>binary64 q' - q\<bar> < 1" using e(3) by linarith
  then show ?thesis unfolding q'_def a'_def q_def a_def .
qed

lemma ceiling_close:
  fixes x y :: rat
  assumes "\<bar>x - y\<bar> < 1"
  shows "\<bar>max 1 \<lceil>x\<rceil> - max 1 \<lceil>y\<rceil>\<bar> \<le> 1"
proof -
  have "x \<le> y + 1" "y \<le> x + 1" using assms by linarith+
  then have "\<lceil>x\<rceil> \<le> \<lceil>y + 1\<rceil>" "\<lceil>y\<rceil> \<le> \<lceil>x + 1\<rceil>" by (simp_all only: ceiling_mono)
  then have "\<lceil>x\<rceil> \<le> \<lceil>y\<rceil> + 1" "\<lceil>y\<rceil> \<le> \<lceil>x\<rceil> + 1" by simp_all
  then show ?thesis by linarith
qed


text \<open>Rounding keeps the order, and a number of hundredths stays what it is.\<close>

lemma py_round_mono:
  assumes "x \<le> y"
  shows "py_round x \<le> py_round y"
proof (rule ccontr)
  assume n: "\<not> py_round x \<le> py_round y"
  then have "py_round y + 1 \<le> py_round x" by simp
  then have "(of_int (py_round y + 1) :: rat) \<le> of_int (py_round x)"
    by (simp only: of_int_le_iff)
  then have "(of_int (py_round y) :: rat) + 1 \<le> of_int (py_round x)" by simp
  moreover have "of_int (py_round x) - 1 / 2 \<le> x" "y \<le> of_int (py_round y) + 1 / 2"
    using py_round_nearest [of x] py_round_nearest [of y] by linarith+
  ultimately have "y \<le> x" by linarith
  with assms have "x = y" by simp
  with n show False by simp
qed

lemma py_round_unique:
  assumes "\<bar>x - of_int k\<bar> < 1 / 2"
  shows "py_round x = k"
proof -
  have "\<bar>(of_int (py_round x) :: rat) - of_int k\<bar> < 1"
    using py_round_nearest [of x] assms by linarith
  then have "\<bar>(of_int (py_round x - k) :: rat)\<bar> < of_int 1" by simp
  then have "(of_int \<bar>py_round x - k\<bar> :: rat) < of_int 1" by (simp only: of_int_abs)
  then have "\<bar>py_round x - k\<bar> < 1" by (simp only: of_int_less_iff)
  then show ?thesis by linarith
qed

lemma py_round_ndigits_mono:
  assumes "x \<le> y"
  shows "py_round_ndigits x 2 \<le> py_round_ndigits y 2"
proof -
  have "x * 100 \<le> y * 100" using assms by simp
  then have "py_round (x * 100) \<le> py_round (y * 100)" by (rule py_round_mono)
  then have "(of_int (py_round (x * 100)) :: rat) \<le> of_int (py_round (y * 100))"
    by (simp only: of_int_le_iff)
  then show ?thesis by (simp add: py_round_ndigits_def divide_right_mono)
qed

lemma binary64_form:
  assumes "0 < x"
  shows "\<exists>l. pow2 l \<le> x \<and> x < pow2 (l + 1)
           \<and> binary64 x = of_int (py_round (x / pow2 (l - 52))) * pow2 (l - 52)"
proof -
  obtain p q where pq: "quotient_of \<bar>x\<bar> = (p, q)" by (cases "quotient_of \<bar>x\<bar>")
  define k where "k = int (bit_length p) - int (bit_length q)"
  define l where "l = (if pow2 k \<le> \<bar>x\<bar> then k else k - 1)"
  have ax: "\<bar>x\<bar> = x" using assms by simp
  have lb: "pow2 l \<le> x" "x < pow2 (l + 1)"
    using leading_bit [of x p q] assms pq unfolding ax l_def k_def by auto
  have b: "binary64 x = of_int (py_round (x / pow2 (l - 52))) * pow2 (l - 52)"
    using assms pq unfolding binary64_def l_def k_def by (simp add: Let_def)
  from lb b show ?thesis by blast
qed

lemma pow2_52_53: "pow2 52 = of_int (2 ^ 52)" "pow2 53 = of_int (2 ^ 53)"
  using pow2_nat [of 52] pow2_nat [of 53] by simp_all

lemma binary64_between:
  assumes "pow2 l \<le> x" and "x < pow2 (l + 1)"
  shows "pow2 l \<le> of_int (py_round (x / pow2 (l - 52))) * pow2 (l - 52)"
    and "of_int (py_round (x / pow2 (l - 52))) * pow2 (l - 52) \<le> pow2 (l + 1)"
proof -
  have pe: "0 < pow2 (l - 52)" by (rule pow2_pos)
  have pe0: "0 \<le> pow2 (l - 52)" using pe by simp
  have lo: "pow2 l = pow2 52 * pow2 (l - 52)" unfolding pow2_add [symmetric] by simp
  have hi: "pow2 (l + 1) = pow2 53 * pow2 (l - 52)"
    using pow2_add [of 53 "l - 52"] by (simp add: add.commute)
  have "pow2 52 * pow2 (l - 52) \<le> x" using assms(1) unfolding lo .
  then have "pow2 52 \<le> x / pow2 (l - 52)" using pe by (simp only: pos_le_divide_eq)
  then have "py_round (of_int (2 ^ 52)) \<le> py_round (x / pow2 (l - 52))"
    unfolding pow2_52_53 by (rule py_round_mono)
  then have "(2 :: int) ^ 52 \<le> py_round (x / pow2 (l - 52))" unfolding py_round_of_int .
  then have "(of_int (2 ^ 52) :: rat) \<le> of_int (py_round (x / pow2 (l - 52)))"
    by (simp only: of_int_le_iff)
  then show "pow2 l \<le> of_int (py_round (x / pow2 (l - 52))) * pow2 (l - 52)"
    unfolding lo pow2_52_53 using pe0 by (rule mult_right_mono)
  have "x \<le> pow2 53 * pow2 (l - 52)" using assms(2) unfolding hi by simp
  then have "x / pow2 (l - 52) \<le> pow2 53" using pe by (simp only: pos_divide_le_eq)
  then have "py_round (x / pow2 (l - 52)) \<le> py_round (of_int (2 ^ 53))"
    unfolding pow2_52_53 by (rule py_round_mono)
  then have "py_round (x / pow2 (l - 52)) \<le> (2 :: int) ^ 53" unfolding py_round_of_int .
  then have "(of_int (py_round (x / pow2 (l - 52))) :: rat) \<le> of_int (2 ^ 53)"
    by (simp only: of_int_le_iff)
  then show "of_int (py_round (x / pow2 (l - 52))) * pow2 (l - 52) \<le> pow2 (l + 1)"
    unfolding hi pow2_52_53 using pe0 by (rule mult_right_mono)
qed

lemma pow2_less_imp: "pow2 a < pow2 b \<Longrightarrow> a < b"
  using pow2_mono [of b a] by (cases "a < b") auto

lemma binary64_mono:
  assumes "0 \<le> x" and "x \<le> y"
  shows "binary64 x \<le> binary64 y"
proof (cases "x = 0")
  case True
  show ?thesis
  proof (cases "y = 0")
    case True
    with \<open>x = 0\<close> show ?thesis by simp
  next
    case False
    with assms True have y: "0 < y" by simp
    obtain l where l: "pow2 l \<le> y" "y < pow2 (l + 1)"
      "binary64 y = of_int (py_round (y / pow2 (l - 52))) * pow2 (l - 52)"
      using binary64_form [OF y] by blast
    have "0 < pow2 l" by (rule pow2_pos)
    also have "\<dots> \<le> binary64 y" unfolding l(3) by (rule binary64_between (1) [OF l(1,2)])
    finally show ?thesis using True by (simp add: binary64_def)
  qed
next
  case False
  with assms have x: "0 < x" and y: "0 < y" by simp_all
  obtain l where l: "pow2 l \<le> x" "x < pow2 (l + 1)"
    "binary64 x = of_int (py_round (x / pow2 (l - 52))) * pow2 (l - 52)"
    using binary64_form [OF x] by blast
  obtain l' where l': "pow2 l' \<le> y" "y < pow2 (l' + 1)"
    "binary64 y = of_int (py_round (y / pow2 (l' - 52))) * pow2 (l' - 52)"
    using binary64_form [OF y] by blast
  have "pow2 l < pow2 (l' + 1)" using l(1) assms(2) l'(2) by linarith
  then have "l < l' + 1" by (rule pow2_less_imp)
  then have "l \<le> l'" by simp
  show ?thesis
  proof (cases "l = l'")
    case True
    have pe: "0 < pow2 (l - 52)" by (rule pow2_pos)
    have pe0: "0 \<le> pow2 (l - 52)" using pe by simp
    have "x / pow2 (l - 52) \<le> y / pow2 (l - 52)" using assms(2) pe0 by (rule divide_right_mono)
    then have "py_round (x / pow2 (l - 52)) \<le> py_round (y / pow2 (l - 52))" by (rule py_round_mono)
    then have "(of_int (py_round (x / pow2 (l - 52))) :: rat) \<le> of_int (py_round (y / pow2 (l - 52)))"
      by (simp only: of_int_le_iff)
    then show ?thesis unfolding l(3) l'(3) True [symmetric]
      using pe0 by (rule mult_right_mono)
  next
    case False
    with \<open>l \<le> l'\<close> have "l + 1 \<le> l'" by simp
    have "binary64 x \<le> pow2 (l + 1)" unfolding l(3) by (rule binary64_between (2) [OF l(1,2)])
    also have "\<dots> \<le> pow2 l'" using \<open>l + 1 \<le> l'\<close> by (rule pow2_mono)
    also have "\<dots> \<le> binary64 y" unfolding l'(3) by (rule binary64_between (1) [OF l'(1,2)])
    finally show ?thesis .
  qed
qed

lemma rounding_mono:
  assumes "rnd = exact \<or> rnd = binary64" and "0 \<le> x" and "x \<le> y"
  shows "rnd x \<le> rnd y"
  using assms binary64_mono by (auto simp: exact_def)

text \<open>
  A segment length of \<open>k\<close> hundredths, as the number type holds it, comes back from
  \<open>round(segment_seconds, 2)\<close> unchanged.
\<close>

lemma hundredths_fixed:
  fixes k :: int
  assumes "rnd = exact \<or> (rnd = binary64 \<and> k < 2 ^ 52)" and "0 < k"
    and "segment_seconds = rnd (of_int k / 100)"
  shows "py_round_ndigits segment_seconds 2 = of_int k / 100"
    and "rnd (py_round_ndigits segment_seconds 2) = segment_seconds"
proof -
  have "\<bar>segment_seconds * 100 - of_int k\<bar> < 1 / 2"
  proof (cases "rnd = exact")
    case True
    then show ?thesis using assms(3) by (simp add: exact_def)
  next
    case False
    with assms(1) have r: "rnd = binary64" and kb: "k < 2 ^ 52" by auto
    have pos: "0 < (of_int k / 100 :: rat)" using assms(2) by simp
    have "\<bar>segment_seconds - of_int k / 100\<bar> \<le> of_int k / 100 / 2 ^ 53"
      unfolding assms(3) r by (rule binary64_error [OF pos])
    moreover have "(of_int k :: rat) / 100 / 2 ^ 53 < 1 / 200"
    proof -
      have "(of_int k :: rat) < of_int (2 ^ 52)" using kb by (simp only: of_int_less_iff)
      then show ?thesis by simp
    qed
    ultimately have "\<bar>segment_seconds - of_int k / 100\<bar> < 1 / 200" by linarith
    then show ?thesis by linarith
  qed
  then have "py_round (segment_seconds * 100) = k" by (rule py_round_unique)
  then show a: "py_round_ndigits segment_seconds 2 = of_int k / 100"
    by (simp add: py_round_ndigits_def)
  have "rnd (py_round_ndigits segment_seconds 2) = rnd (of_int k / 100)" by (simp only: a)
  with assms(3) show "rnd (py_round_ndigits segment_seconds 2) = segment_seconds" by simp
qed

lemma binary64_nonneg: "0 \<le> x \<Longrightarrow> 0 \<le> binary64 x"
  using binary64_mono [of 0 x] by (simp add: binary64_def)

text \<open>
  The segments at their nominal length cover the total, in \<open>float\<close> arithmetic up to the
  rounding of the quotient.
\<close>

lemma count_covers:
  fixes total_seconds segment_seconds :: rat
  assumes "rnd = exact \<or> rnd = binary64" and "0 < segment_seconds" and "0 \<le> total_seconds"
  shows "total_seconds * (1 - 1 / 2 ^ 53)
           \<le> segment_seconds * of_int (max 1 \<lceil>rnd (total_seconds / segment_seconds)\<rceil>)"
proof -
  let ?q = "total_seconds / segment_seconds"
  have q0: "0 \<le> ?q" using assms(2,3) by simp
  have "?q * (1 - 1 / 2 ^ 53) \<le> rnd ?q"
  proof (cases "rnd = exact")
    case True
    have "?q * (1 - 1 / 2 ^ 53) \<le> ?q * 1" using q0 by (intro mult_left_mono) simp_all
    then show ?thesis unfolding True exact_def by simp
  next
    case False
    with assms(1) have r: "rnd = binary64" by simp
    show ?thesis
    proof (cases "?q = 0")
      case True
      have "binary64 0 = 0" by (simp add: binary64_def)
      then show ?thesis unfolding r True by simp
    next
      case False
      with q0 have "0 < ?q" by (metis less_le)
      then have "\<bar>binary64 ?q - ?q\<bar> \<le> ?q / 2 ^ 53" by (rule binary64_error)
      then have "?q - ?q / 2 ^ 53 \<le> binary64 ?q" by linarith
      then show ?thesis unfolding r by (simp add: algebra_simps)
    qed
  qed
  also have "rnd ?q \<le> of_int \<lceil>rnd ?q\<rceil>" by (rule le_of_int_ceiling)
  also have "(of_int \<lceil>rnd ?q\<rceil> :: rat) \<le> of_int (max 1 \<lceil>rnd ?q\<rceil>)"
    by (simp only: of_int_le_iff)
  finally have "?q * (1 - 1 / 2 ^ 53) * segment_seconds
                  \<le> of_int (max 1 \<lceil>rnd ?q\<rceil>) * segment_seconds"
    using assms(2) by (simp only: mult_right_mono less_imp_le)
  moreover have "?q * (1 - 1 / 2 ^ 53) * segment_seconds = total_seconds * (1 - 1 / 2 ^ 53)"
    using assms(2) by simp
  ultimately show ?thesis by (simp only: mult.commute)
qed

section \<open>Frame counts\<close>

text \<open>
  C1, as stated, fails: with \<open>min_frames = 5\<close> and \<open>frame_step = 4\<close>, 3.75 seconds at one
  frame per second give \<open>round(3.75 / 4) * 4 = 4\<close>, which \<open>max\<close> raises to the minimum,
  and 5 is no multiple of 4. The inputs are binary fractions, so \<open>float\<close> and exact
  arithmetic agree.
\<close>

theorem frames_multiple_counterexample:
  "(0::rat) < 1 / 16 \<and> (0::rat) < 15 / 4 \<and> (0::rat) < 1 \<and> (0::int) < 5 \<and> (0::int) < 4
   \<and> build_segments_plan binary64 ''A'' (1 / 16) (15 / 4) 1 5 4
       = Inr [\<lparr>seg_index = 1,
               seg_prompt = ''A (Segment 1/1. Houd stijl, personages en camera gelijkmatig).'',
               seg_seconds = 15 / 4, seg_frames = 5\<rparr>]
   \<and> build_segments_plan exact ''A'' (1 / 16) (15 / 4) 1 5 4
       = Inr [\<lparr>seg_index = 1,
               seg_prompt = ''A (Segment 1/1. Houd stijl, personages en camera gelijkmatig).'',
               seg_seconds = 15 / 4, seg_frames = 5\<rparr>]
   \<and> \<not> (4::int) dvd 5"
proof -
  have "build_segments_plan binary64 ''A'' (1 / 16) (15 / 4) 1 5 4
       = Inr [\<lparr>seg_index = 1,
               seg_prompt = ''A (Segment 1/1. Houd stijl, personages en camera gelijkmatig).'',
               seg_seconds = 15 / 4, seg_frames = 5\<rparr>]"
    by code_simp
  moreover have "build_segments_plan exact ''A'' (1 / 16) (15 / 4) 1 5 4
       = Inr [\<lparr>seg_index = 1,
               seg_prompt = ''A (Segment 1/1. Houd stijl, personages en camera gelijkmatig).'',
               seg_seconds = 15 / 4, seg_frames = 5\<rparr>]"
    by code_simp
  ultimately show ?thesis by simp
qed

text \<open>
  C1, amended. For every valid planning input, every prompt and either arithmetic, the
  planner returns a non-empty plan in which every \<open>frames\<close> value is at least
  \<open>min_frames\<close> and is either \<open>min_frames\<close> itself or a multiple of \<open>frame_step\<close>; when
  \<open>frame_step\<close> divides \<open>min_frames\<close>, every \<open>frames\<close> value is a multiple of
  \<open>frame_step\<close>.
\<close>

theorem frames_min_or_multiple:
  fixes total_minutes segment_seconds fps :: rat and rnd :: "rat \<Rightarrow> rat"
  assumes "0 < total_minutes" "0 < segment_seconds" "0 < fps" "0 < min_frames" "0 < frame_step"
  shows "\<exists>plan. build_segments_plan rnd prompt total_minutes segment_seconds fps min_frames frame_step
                 = Inr plan
          \<and> plan \<noteq> []
          \<and> (\<forall>s \<in> set plan.
                min_frames \<le> seg_frames s
              \<and> (seg_frames s = min_frames \<or> frame_step dvd seg_frames s)
              \<and> (frame_step dvd min_frames \<longrightarrow> frame_step dvd seg_frames s))"
proof -
  let ?n = "max 1 \<lceil>rnd (rnd (total_minutes * 60) / segment_seconds)\<rceil>"
  let ?d = "duration_of rnd (rnd (total_minutes * 60)) segment_seconds ?n"
  obtain chunks plan where
    p: "build_segments_plan rnd prompt total_minutes segment_seconds fps min_frames frame_step = Inr plan"
    and m: "plan = map (\<lambda>idx.
           \<lparr>seg_index = int idx + 1,
            seg_prompt = segment_prompt_of (chunks ! idx) idx ?n,
            seg_seconds = rnd (py_round_ndigits (?d idx) 2),
            seg_frames = max min_frames
              (py_round (rnd (rnd (?d idx * fps) / of_int frame_step)) * frame_step)\<rparr>) [0..<nat ?n]"
    using plan_shape [where segment_seconds = segment_seconds and frame_step = frame_step
        and rnd = rnd and total_minutes = total_minutes and prompt = prompt and fps = fps
        and min_frames = min_frames] assms(2,5) by auto
  have ne: "plan \<noteq> []" unfolding m by simp
  have "\<forall>s \<in> set plan.
                min_frames \<le> seg_frames s
              \<and> (seg_frames s = min_frames \<or> frame_step dvd seg_frames s)
              \<and> (frame_step dvd min_frames \<longrightarrow> frame_step dvd seg_frames s)"
    unfolding m by (auto simp: max_def)
  with p ne show ?thesis by blast
qed

theorem frames_min_or_multiple_witness:
  "(0::rat) < 1 / 2 \<and> (0::rat) < 7 \<and> (0::rat) < 10 \<and> (0::int) < 8 \<and> (0::int) < 2
   \<and> (\<exists>plan. build_segments_plan binary64 ''Een uitgebreid verhaal dat in delen wordt verteld.''
                 (1 / 2) 7 10 8 2 = Inr plan
        \<and> map seg_frames plan = [70, 70, 70, 70, 70]
        \<and> (\<forall>s \<in> set plan. 8 \<le> seg_frames s \<and> 2 dvd seg_frames s))"
proof -
  let ?p = "''Een uitgebreid verhaal dat in delen wordt verteld.''"
  have h: "(0::rat) < 1 / 2" "(0::rat) < 7" "(0::rat) < 10" "(0::int) < 8" "(0::int) < 2"
    by simp_all
  have e: "map seg_frames (projr (build_segments_plan binary64 ?p (1 / 2) 7 10 8 2))
           = [70, 70, 70, 70, 70]"
    by code_simp
  obtain plan where p: "build_segments_plan binary64 ?p (1 / 2) 7 10 8 2 = Inr plan"
    and q: "\<forall>s \<in> set plan. 8 \<le> seg_frames s
              \<and> (seg_frames s = 8 \<or> 2 dvd seg_frames s)
              \<and> ((2::int) dvd 8 \<longrightarrow> 2 dvd seg_frames s)"
    using frames_min_or_multiple [OF h, where rnd = binary64 and prompt = ?p] by blast
  have "map seg_frames plan = [70, 70, 70, 70, 70]" using e p by simp
  moreover have "\<forall>s \<in> set plan. 8 \<le> seg_frames s \<and> 2 dvd seg_frames s" using q by simp
  ultimately show ?thesis using h p by (intro conjI exI [of _ plan]) simp_all
qed

text \<open>
  C2, as stated, fails: for 15 seconds at one frame per second and a frame step of 4 the
  code returns \<open>round(15 / 4) * 4 = 16\<close> frames, whereas rounding the raw frame count and
  then dividing by the step with truncation gives \<open>15 div 4 * 4 = 12\<close>.
\<close>

theorem frames_truncation_counterexample:
  "(0::rat) < 1 / 4 \<and> (0::rat) < 15 \<and> (0::rat) < 1 \<and> (0::int) < 1 \<and> (0::int) < 4
   \<and> build_segments_plan binary64 ''A'' (1 / 4) 15 1 1 4
       = Inr [\<lparr>seg_index = 1,
               seg_prompt = ''A (Segment 1/1. Houd stijl, personages en camera gelijkmatig).'',
               seg_seconds = 15, seg_frames = 16\<rparr>]
   \<and> build_segments_plan exact ''A'' (1 / 4) 15 1 1 4
       = Inr [\<lparr>seg_index = 1,
               seg_prompt = ''A (Segment 1/1. Houd stijl, personages en camera gelijkmatig).'',
               seg_seconds = 15, seg_frames = 16\<rparr>]
   \<and> frames_by_truncation 15 1 1 4 = 12"
proof -
  have "build_segments_plan binary64 ''A'' (1 / 4) 15 1 1 4
       = Inr [\<lparr>seg_index = 1,
               seg_prompt = ''A (Segment 1/1. Houd stijl, personages en camera gelijkmatig).'',
               seg_seconds = 15, seg_frames = 16\<rparr>]"
    by code_simp
  moreover have "build_segments_plan exact ''A'' (1 / 4) 15 1 1 4
       = Inr [\<lparr>seg_index = 1,
               seg_prompt = ''A (Segment 1/1. Houd stijl, personages en camera gelijkmatig).'',
               seg_seconds = 15, seg_frames = 16\<rparr>]"
    by code_simp
  moreover have "frames_by_truncation 15 1 1 4 = 12" by code_simp
  ultimately show ?thesis by simp
qed

text \<open>
  C2, amended. For every segment, \<open>frames\<close> is \<open>max(min_frames, q * frame_step)\<close> where
  \<open>q\<close> is the quotient \<open>duration * fps / frame_step\<close>, as the arithmetic computes it,
  rounded to the nearest integer (a tie going to the even one): the rounding is applied
  to the quotient, and nothing is truncated.
\<close>

theorem frames_round_quotient:
  fixes total_minutes segment_seconds fps :: rat and rnd :: "rat \<Rightarrow> rat"
  assumes "0 < total_minutes" "0 < segment_seconds" "0 < fps" "0 < min_frames" "0 < frame_step"
  defines "n \<equiv> max 1 \<lceil>rnd (rnd (total_minutes * 60) / segment_seconds)\<rceil>"
  defines "x \<equiv> (\<lambda>idx. rnd (rnd (duration_of rnd (rnd (total_minutes * 60)) segment_seconds n idx * fps)
                            / of_int frame_step))"
  shows "\<exists>plan. build_segments_plan rnd prompt total_minutes segment_seconds fps min_frames frame_step
                 = Inr plan
          \<and> int (length plan) = n
          \<and> (\<forall>idx < length plan.
                \<exists>q. seg_frames (plan ! idx) = max min_frames (q * frame_step)
                  \<and> q = py_round (x idx)
                  \<and> \<bar>of_int q - x idx\<bar> \<le> 1 / 2
                  \<and> (\<bar>of_int q - x idx\<bar> = 1 / 2 \<longrightarrow> even q))"
proof -
  obtain chunks plan where
    p: "build_segments_plan rnd prompt total_minutes segment_seconds fps min_frames frame_step = Inr plan"
    and m: "plan = map (\<lambda>idx.
           \<lparr>seg_index = int idx + 1,
            seg_prompt = segment_prompt_of (chunks ! idx) idx n,
            seg_seconds = rnd (py_round_ndigits
              (duration_of rnd (rnd (total_minutes * 60)) segment_seconds n idx) 2),
            seg_frames = max min_frames (py_round (x idx) * frame_step)\<rparr>) [0..<nat n]"
    using plan_shape [where segment_seconds = segment_seconds and frame_step = frame_step
        and rnd = rnd and total_minutes = total_minutes and prompt = prompt and fps = fps
        and min_frames = min_frames] assms(2,5) unfolding n_def x_def by auto
  have n: "1 \<le> n" unfolding n_def by simp
  have l: "int (length plan) = n" unfolding m using n by simp
  have "\<forall>idx < length plan.
                \<exists>q. seg_frames (plan ! idx) = max min_frames (q * frame_step)
                  \<and> q = py_round (x idx)
                  \<and> \<bar>of_int q - x idx\<bar> \<le> 1 / 2
                  \<and> (\<bar>of_int q - x idx\<bar> = 1 / 2 \<longrightarrow> even q)"
    unfolding m using py_round_nearest py_round_tie_even by simp
  with p l show ?thesis by blast
qed

theorem frames_round_quotient_witness:
  "(0::rat) < 1 / 4 \<and> (0::rat) < 15 \<and> (0::rat) < 1 \<and> (0::int) < 1 \<and> (0::int) < 4
   \<and> (\<exists>plan. build_segments_plan exact ''A'' (1 / 4) 15 1 1 4 = Inr plan
        \<and> int (length plan) = 1
        \<and> seg_frames (plan ! 0) = max 1 (py_round (15 / 4) * 4)
        \<and> seg_frames (plan ! 0) = 16)"
proof -
  have h: "(0::rat) < 1 / 4" "(0::rat) < 15" "(0::rat) < 1" "(0::int) < 1" "(0::int) < 4"
    by simp_all
  have n: "max 1 \<lceil>exact (exact ((1 / 4 :: rat) * 60) / 15)\<rceil> = 1" by (simp add: exact_def)
  have d: "exact (exact (duration_of exact (exact ((1 / 4) * 60)) 15 1 0 * 1) / of_int 4) = 15 / 4"
    by (simp add: duration_of_def exact_def)
  have r: "py_round (15 / 4) = 4" by code_simp
  obtain plan where p: "build_segments_plan exact ''A'' (1 / 4) 15 1 1 4 = Inr plan"
    and l: "int (length plan) = 1"
    and f: "\<forall>idx < length plan.
              seg_frames (plan ! idx)
              = max 1 (py_round (exact (exact (duration_of exact (exact ((1 / 4) * 60)) 15 1 idx * 1)
                                   / of_int 4)) * 4)"
    using frames_round_quotient [OF h, where rnd = exact and prompt = "''A''"] unfolding n by blast
  have "0 < length plan" using l by simp
  with f have "seg_frames (plan ! 0)
              = max 1 (py_round (exact (exact (duration_of exact (exact ((1 / 4) * 60)) 15 1 0 * 1)
                                   / of_int 4)) * 4)"
    by blast
  then have "seg_frames (plan ! 0) = max 1 (py_round (15 / 4) * 4)"
    unfolding d .
  then show ?thesis using h p l r by auto
qed

section \<open>Number of segments, durations and annotations\<close>

text \<open>
  C5, as stated, fails in \<open>float\<close> arithmetic, the arithmetic of the interface's numbers:
  the planner takes the ceiling of the quotient as it computes it,
  \<open>(total_minutes * 60) / segment_seconds\<close> with the product and the quotient rounded.
  With \<open>total_minutes = 0.27\<close> and \<open>segment_seconds = 2.7\<close> the product is
  16.200000000000003 and the quotient 6.000000000000001, so the plan has 7 entries, where
  \<open>max(1, ceil(total_minutes * 60 / segment_seconds))\<close> is 6, for the two \<open>float\<close> values
  and for the decimals 0.27 and 2.7 alike.
\<close>

theorem segment_count_float_counterexample:
  "(0::rat) < binary64 (27 / 100) \<and> (0::rat) < binary64 (27 / 10) \<and> (0::rat) < 8
   \<and> (0::int) < 8 \<and> (0::int) < 2
   \<and> build_segments_plan binary64 ''A'' (binary64 (27 / 100)) (binary64 (27 / 10)) 8 8 2
       = Inr [\<lparr>seg_index = 1,
               seg_prompt = ''A (Segment 1/7. Houd stijl, personages en camera gelijkmatig).'',
               seg_seconds = binary64 (27 / 10), seg_frames = 22\<rparr>,
              \<lparr>seg_index = 2,
               seg_prompt = ''A (Segment 2/7. Houd stijl, personages en camera gelijkmatig).'',
               seg_seconds = binary64 (27 / 10), seg_frames = 22\<rparr>,
              \<lparr>seg_index = 3,
               seg_prompt = ''A (Segment 3/7. Houd stijl, personages en camera gelijkmatig).'',
               seg_seconds = binary64 (27 / 10), seg_frames = 22\<rparr>,
              \<lparr>seg_index = 4,
               seg_prompt = ''A (Segment 4/7. Houd stijl, personages en camera gelijkmatig).'',
               seg_seconds = binary64 (27 / 10), seg_frames = 22\<rparr>,
              \<lparr>seg_index = 5,
               seg_prompt = ''A (Segment 5/7. Houd stijl, personages en camera gelijkmatig).'',
               seg_seconds = binary64 (27 / 10), seg_frames = 22\<rparr>,
              \<lparr>seg_index = 6,
               seg_prompt = ''A (Segment 6/7. Houd stijl, personages en camera gelijkmatig).'',
               seg_seconds = binary64 (27 / 10), seg_frames = 22\<rparr>,
              \<lparr>seg_index = 7,
               seg_prompt = ''A (Segment 7/7. Houd stijl, personages en camera gelijkmatig).'',
               seg_seconds = binary64 (27 / 10), seg_frames = 22\<rparr>]
   \<and> max 1 \<lceil>binary64 (27 / 100) * 60 / binary64 (27 / 10)\<rceil> = 6
   \<and> max 1 \<lceil>(27 / 100 :: rat) * 60 / (27 / 10)\<rceil> = 6
   \<and> binary64 (binary64 (27 / 100) * 60) = 1139973655678157 / 70368744177664
   \<and> binary64 (binary64 (binary64 (27 / 100) * 60) / binary64 (27 / 10))
       = 6755399441055745 / 1125899906842624
   \<and> (6 :: rat) < 6755399441055745 / 1125899906842624"
proof -
  have "(0::rat) < binary64 (27 / 100)" "(0::rat) < binary64 (27 / 10)" by code_simp+
  moreover have "build_segments_plan binary64 ''A'' (binary64 (27 / 100)) (binary64 (27 / 10)) 8 8 2
       = Inr [\<lparr>seg_index = 1,
               seg_prompt = ''A (Segment 1/7. Houd stijl, personages en camera gelijkmatig).'',
               seg_seconds = binary64 (27 / 10), seg_frames = 22\<rparr>,
              \<lparr>seg_index = 2,
               seg_prompt = ''A (Segment 2/7. Houd stijl, personages en camera gelijkmatig).'',
               seg_seconds = binary64 (27 / 10), seg_frames = 22\<rparr>,
              \<lparr>seg_index = 3,
               seg_prompt = ''A (Segment 3/7. Houd stijl, personages en camera gelijkmatig).'',
               seg_seconds = binary64 (27 / 10), seg_frames = 22\<rparr>,
              \<lparr>seg_index = 4,
               seg_prompt = ''A (Segment 4/7. Houd stijl, personages en camera gelijkmatig).'',
               seg_seconds = binary64 (27 / 10), seg_frames = 22\<rparr>,
              \<lparr>seg_index = 5,
               seg_prompt = ''A (Segment 5/7. Houd stijl, personages en camera gelijkmatig).'',
               seg_seconds = binary64 (27 / 10), seg_frames = 22\<rparr>,
              \<lparr>seg_index = 6,
               seg_prompt = ''A (Segment 6/7. Houd stijl, personages en camera gelijkmatig).'',
               seg_seconds = binary64 (27 / 10), seg_frames = 22\<rparr>,
              \<lparr>seg_index = 7,
               seg_prompt = ''A (Segment 7/7. Houd stijl, personages en camera gelijkmatig).'',
               seg_seconds = binary64 (27 / 10), seg_frames = 22\<rparr>]"
    by code_simp
  moreover have "max 1 \<lceil>binary64 (27 / 100) * 60 / binary64 (27 / 10)\<rceil> = 6" by code_simp
  moreover have "max 1 \<lceil>(27 / 100 :: rat) * 60 / (27 / 10)\<rceil> = 6" by code_simp
  moreover have "binary64 (binary64 (27 / 100) * 60) = 1139973655678157 / 70368744177664"
    by code_simp
  moreover have "binary64 (binary64 (binary64 (27 / 100) * 60) / binary64 (27 / 10))
       = 6755399441055745 / 1125899906842624"
    by code_simp
  ultimately show ?thesis by simp
qed

text \<open>
  C5, amended. For all valid inputs the planner returns exactly \<open>max(1, ceil(q))\<close> entries,
  at least one, where \<open>q\<close> is the quotient \<open>(total_minutes * 60) / segment_seconds\<close> as the
  arithmetic computes it. In exact arithmetic that is
  \<open>max(1, ceil(total_minutes * 60 / segment_seconds))\<close>; in \<open>float\<close> arithmetic, with a
  quotient below \<open>2^51\<close>, it differs from that number by at most one. With
  \<open>total_minutes = 0.25\<close> and \<open>segment_seconds = 7\<close> it is exactly 3, in \<open>float\<close> and in
  exact arithmetic; and the entry at position \<open>idx\<close> has the index \<open>idx + 1\<close> and a prompt
  that ends with that index and the total count.
\<close>

theorem plan_length:
  fixes total_minutes segment_seconds fps :: rat and rnd :: "rat \<Rightarrow> rat"
  assumes "0 < total_minutes" "0 < segment_seconds" "0 < fps" "0 < min_frames" "0 < frame_step"
  shows "\<exists>plan. build_segments_plan rnd prompt total_minutes segment_seconds fps min_frames frame_step
                 = Inr plan
          \<and> int (length plan) = max 1 \<lceil>rnd (rnd (total_minutes * 60) / segment_seconds)\<rceil>
          \<and> 1 \<le> length plan
          \<and> (rnd = exact \<longrightarrow> int (length plan) = max 1 \<lceil>total_minutes * 60 / segment_seconds\<rceil>)
          \<and> (rnd = binary64 \<and> total_minutes * 60 / segment_seconds < 2 ^ 51 \<longrightarrow>
                \<bar>int (length plan) - max 1 \<lceil>total_minutes * 60 / segment_seconds\<rceil>\<bar> \<le> 1)
          \<and> (total_minutes = 1 / 4 \<and> segment_seconds = 7 \<and> (rnd = exact \<or> rnd = binary64)
                \<longrightarrow> length plan = 3)
          \<and> (\<forall>idx < length plan.
                seg_index (plan ! idx) = int idx + 1
              \<and> (\<exists>chunk. seg_prompt (plan ! idx)
                    = chunk @ '' (Segment '' @ str_int (int idx + 1) @ ''/''
                        @ str_int (int (length plan)) @ continuity))"
proof -
  let ?n = "max 1 \<lceil>rnd (rnd (total_minutes * 60) / segment_seconds)\<rceil>"
  let ?d = "duration_of rnd (rnd (total_minutes * 60)) segment_seconds ?n"
  obtain chunks plan where
    p: "build_segments_plan rnd prompt total_minutes segment_seconds fps min_frames frame_step = Inr plan"
    and m: "plan = map (\<lambda>idx.
           \<lparr>seg_index = int idx + 1,
            seg_prompt = segment_prompt_of (chunks ! idx) idx ?n,
            seg_seconds = rnd (py_round_ndigits (?d idx) 2),
            seg_frames = max min_frames
              (py_round (rnd (rnd (?d idx * fps) / of_int frame_step)) * frame_step)\<rparr>) [0..<nat ?n]"
    using plan_shape [where segment_seconds = segment_seconds and frame_step = frame_step
        and rnd = rnd and total_minutes = total_minutes and prompt = prompt and fps = fps
        and min_frames = min_frames] assms(2,5)
    by auto
  have l: "int (length plan) = ?n" unfolding m by simp
  then have l1: "1 \<le> length plan" by linarith
  have le: "rnd = exact \<longrightarrow> int (length plan) = max 1 \<lceil>total_minutes * 60 / segment_seconds\<rceil>"
    using l by (simp add: exact_def)
  have lf: "rnd = binary64 \<and> total_minutes * 60 / segment_seconds < 2 ^ 51 \<longrightarrow>
                \<bar>int (length plan) - max 1 \<lceil>total_minutes * 60 / segment_seconds\<rceil>\<bar> \<le> 1"
  proof
    assume a: "rnd = binary64 \<and> total_minutes * 60 / segment_seconds < 2 ^ 51"
    then have r: "rnd = binary64" and b: "total_minutes * 60 / segment_seconds < 2 ^ 51"
      by blast+
    have "\<bar>binary64 (binary64 (total_minutes * 60) / segment_seconds)
            - total_minutes * 60 / segment_seconds\<bar> < 1"
      using assms(1,2) b by (rule binary64_quotient_close)
    then have "\<bar>max 1 \<lceil>binary64 (binary64 (total_minutes * 60) / segment_seconds)\<rceil>
                 - max 1 \<lceil>total_minutes * 60 / segment_seconds\<rceil>\<bar> \<le> 1"
      by (rule ceiling_close)
    then show "\<bar>int (length plan) - max 1 \<lceil>total_minutes * 60 / segment_seconds\<rceil>\<bar> \<le> 1"
      unfolding l r .
  qed
  have l3: "total_minutes = 1 / 4 \<and> segment_seconds = 7 \<and> (rnd = exact \<or> rnd = binary64)
            \<longrightarrow> length plan = 3"
  proof
    assume a: "total_minutes = 1 / 4 \<and> segment_seconds = 7 \<and> (rnd = exact \<or> rnd = binary64)"
    from a have tm: "total_minutes = 1 / 4" and ss: "segment_seconds = 7"
      and r: "rnd = exact \<or> rnd = binary64" by blast+
    have c1: "max 1 \<lceil>exact (exact ((1 / 4 :: rat) * 60) / 7)\<rceil> = 3" by code_simp
    have c2: "max 1 \<lceil>binary64 (binary64 ((1 / 4 :: rat) * 60) / 7)\<rceil> = 3" by code_simp
    have "?n = 3" using r unfolding tm ss using c1 c2 by blast
    with l show "length plan = 3" by linarith
  qed
  have a: "\<forall>idx < length plan.
                seg_index (plan ! idx) = int idx + 1
              \<and> (\<exists>chunk. seg_prompt (plan ! idx)
                    = chunk @ '' (Segment '' @ str_int (int idx + 1) @ ''/''
                        @ str_int (int (length plan)) @ continuity)"
    unfolding l unfolding m by (simp add: segment_prompt_of_def)
  show ?thesis
    by (intro exI [of _ plan] conjI) (rule p l l1 le lf l3 a)+
qed

theorem plan_length_witness:
  "(0::rat) < 1 / 4 \<and> (0::rat) < 7 \<and> (0::rat) < 8 \<and> (0::int) < 8 \<and> (0::int) < 2
   \<and> (\<exists>plan. build_segments_plan binary64 ''Een lange prompt met twee zinnen. Nog een stukje prompt.''
                 (1 / 4) 7 8 8 2 = Inr plan
        \<and> length plan = 3
        \<and> map seg_index plan = [1, 2, 3]
        \<and> map seg_prompt plan =
            [''Een lange prompt met twee zinnen. (Segment 1/3. Houd stijl, personages en camera gelijkmatig).'',
             ''Nog een stukje prompt. (Segment 2/3. Houd stijl, personages en camera gelijkmatig).'',
             ''Nog een stukje prompt. (Segment 3/3. Houd stijl, personages en camera gelijkmatig).''])
   \<and> (0::rat) < binary64 (27 / 100) \<and> (0::rat) < binary64 (27 / 10)
   \<and> binary64 (27 / 100) * 60 / binary64 (27 / 10) < 2 ^ 51
   \<and> (\<exists>plan. build_segments_plan binary64 ''A'' (binary64 (27 / 100)) (binary64 (27 / 10)) 8 8 2
                 = Inr plan
        \<and> length plan = 7
        \<and> max 1 \<lceil>binary64 (27 / 100) * 60 / binary64 (27 / 10)\<rceil> = 6
        \<and> \<bar>int (length plan) - max 1 \<lceil>binary64 (27 / 100) * 60 / binary64 (27 / 10)\<rceil>\<bar> \<le> 1)
   \<and> (\<exists>plan. build_segments_plan exact ''A'' (27 / 100) (27 / 10) 8 8 2 = Inr plan
        \<and> int (length plan) = max 1 \<lceil>(27 / 100 :: rat) * 60 / (27 / 10)\<rceil>
        \<and> length plan = 6)"
proof -
  let ?p = "''Een lange prompt met twee zinnen. Nog een stukje prompt.''"
  have h: "(0::rat) < 1 / 4" "(0::rat) < 7" "(0::rat) < 8" "(0::int) < 8" "(0::int) < 2"
    by simp_all
  have e: "map seg_index (projr (build_segments_plan binary64 ?p (1 / 4) 7 8 8 2)) = [1, 2, 3]"
    by code_simp
  have e': "map seg_prompt (projr (build_segments_plan binary64 ?p (1 / 4) 7 8 8 2)) =
            [''Een lange prompt met twee zinnen. (Segment 1/3. Houd stijl, personages en camera gelijkmatig).'',
             ''Nog een stukje prompt. (Segment 2/3. Houd stijl, personages en camera gelijkmatig).'',
             ''Nog een stukje prompt. (Segment 3/3. Houd stijl, personages en camera gelijkmatig).'']"
    by code_simp
  obtain plan where p: "build_segments_plan binary64 ?p (1 / 4) 7 8 8 2 = Inr plan"
    and l: "(1 / 4 :: rat) = 1 / 4 \<and> (7::rat) = 7 \<and> (binary64 = exact \<or> binary64 = binary64)
            \<longrightarrow> length plan = 3"
    using plan_length [OF h, where rnd = binary64 and prompt = ?p]
    by (elim exE conjE) (rule that; assumption)
  have l3: "length plan = 3" using l by simp
  have i: "map seg_index plan = [1, 2, 3]" using e p by simp
  have t: "map seg_prompt plan =
            [''Een lange prompt met twee zinnen. (Segment 1/3. Houd stijl, personages en camera gelijkmatig).'',
             ''Nog een stukje prompt. (Segment 2/3. Houd stijl, personages en camera gelijkmatig).'',
             ''Nog een stukje prompt. (Segment 3/3. Houd stijl, personages en camera gelijkmatig).'']"
    using e' p by simp
  have f: "(0::rat) < binary64 (27 / 100)" "(0::rat) < binary64 (27 / 10)" by code_simp+
  have g: "(0::rat) < 8" "(0::int) < 8" "(0::int) < 2" by simp_all
  have b: "binary64 (27 / 100) * 60 / binary64 (27 / 10) < 2 ^ 51" by code_simp
  have c: "max 1 \<lceil>binary64 (27 / 100) * 60 / binary64 (27 / 10)\<rceil> = 6" by code_simp
  have n: "max 1 \<lceil>binary64 (binary64 (binary64 (27 / 100) * 60) / binary64 (27 / 10))\<rceil> = 7"
    by code_simp
  obtain plan' where
    p': "build_segments_plan binary64 ''A'' (binary64 (27 / 100)) (binary64 (27 / 10)) 8 8 2 = Inr plan'"
    and l': "int (length plan')
              = max 1 \<lceil>binary64 (binary64 (binary64 (27 / 100) * 60) / binary64 (27 / 10))\<rceil>"
    and d': "binary64 = binary64 \<and> binary64 (27 / 100) * 60 / binary64 (27 / 10) < 2 ^ 51 \<longrightarrow>
              \<bar>int (length plan') - max 1 \<lceil>binary64 (27 / 100) * 60 / binary64 (27 / 10)\<rceil>\<bar> \<le> 1"
    using plan_length [OF f g, where rnd = binary64 and prompt = "''A''"]
    by (elim exE conjE) (rule that; assumption)
  have l7: "length plan' = 7" using l' unfolding n by linarith
  have d: "\<bar>int (length plan') - max 1 \<lceil>binary64 (27 / 100) * 60 / binary64 (27 / 10)\<rceil>\<bar> \<le> 1"
    using d' b by blast
  have x: "(0::rat) < 27 / 100" "(0::rat) < 27 / 10" by simp_all
  have c6: "max 1 \<lceil>(27 / 100 :: rat) * 60 / (27 / 10)\<rceil> = 6" by code_simp
  obtain plan'' where p'': "build_segments_plan exact ''A'' (27 / 100) (27 / 10) 8 8 2 = Inr plan''"
    and e'': "exact = exact \<longrightarrow> int (length plan'') = max 1 \<lceil>(27 / 100 :: rat) * 60 / (27 / 10)\<rceil>"
    using plan_length [OF x g, where rnd = exact and prompt = "''A''"]
    by (elim exE conjE) (rule that; assumption)
  have l'': "int (length plan'') = max 1 \<lceil>(27 / 100 :: rat) * 60 / (27 / 10)\<rceil>" using e'' by simp
  have l6: "length plan'' = 6" using l'' unfolding c6 by linarith
  have 1: "\<exists>plan. build_segments_plan binary64 ?p (1 / 4) 7 8 8 2 = Inr plan
        \<and> length plan = 3
        \<and> map seg_index plan = [1, 2, 3]
        \<and> map seg_prompt plan =
            [''Een lange prompt met twee zinnen. (Segment 1/3. Houd stijl, personages en camera gelijkmatig).'',
             ''Nog een stukje prompt. (Segment 2/3. Houd stijl, personages en camera gelijkmatig).'',
             ''Nog een stukje prompt. (Segment 3/3. Houd stijl, personages en camera gelijkmatig).'']"
    by (intro exI [of _ plan] conjI) (rule p l3 i t)+
  have 2: "\<exists>plan. build_segments_plan binary64 ''A'' (binary64 (27 / 100)) (binary64 (27 / 10)) 8 8 2
                 = Inr plan
        \<and> length plan = 7
        \<and> max 1 \<lceil>binary64 (27 / 100) * 60 / binary64 (27 / 10)\<rceil> = 6
        \<and> \<bar>int (length plan) - max 1 \<lceil>binary64 (27 / 100) * 60 / binary64 (27 / 10)\<rceil>\<bar> \<le> 1"
    by (intro exI [of _ plan'] conjI) (rule p' l7 c d)+
  have 3: "\<exists>plan. build_segments_plan exact ''A'' (27 / 100) (27 / 10) 8 8 2 = Inr plan
        \<and> int (length plan) = max 1 \<lceil>(27 / 100 :: rat) * 60 / (27 / 10)\<rceil>
        \<and> length plan = 6"
    by (intro exI [of _ plan''] conjI) (rule p'' l'' l6)+
  show ?thesis
    by (intro conjI) (rule h f b 1 2 3)+
qed

text \<open>
  C6, as stated, fails: \<open>seconds\<close> is the duration rounded to two decimals. With a segment
  length of 0.125 s and a total of 17/4096 minutes (0.249 s) both entries have
  \<open>seconds = 0.12\<close> (in \<open>float\<close> arithmetic, the \<open>float\<close> nearest to it): the last one is
  below the segment length, the one before it does not equal the segment length, and the
  sum is below the total. The inputs are binary fractions. In \<open>float\<close> arithmetic the sum
  falls short of the total also when the segment length has one decimal: with 0.65 minutes
  and 3.9 s the total is 39.0 and the plan has ten entries, every one with the duration and
  the \<open>seconds\<close> of the \<open>float\<close> 3.9, which is below 3.9, so that they sum to less than 39.
\<close>

theorem seconds_rounded_counterexample:
  "(0::rat) < 17 / 4096 \<and> (0::rat) < 1 / 8 \<and> (0::rat) < 1 \<and> (0::int) < 1
   \<and> build_segments_plan exact ''A'' (17 / 4096) (1 / 8) 1 1 1
       = Inr [\<lparr>seg_index = 1,
               seg_prompt = ''A (Segment 1/2. Houd stijl, personages en camera gelijkmatig).'',
               seg_seconds = 3 / 25, seg_frames = 1\<rparr>,
              \<lparr>seg_index = 2,
               seg_prompt = ''A (Segment 2/2. Houd stijl, personages en camera gelijkmatig).'',
               seg_seconds = 3 / 25, seg_frames = 1\<rparr>]
   \<and> \<not> (1 / 8 :: rat) \<le> 3 / 25
   \<and> (3 / 25 :: rat) \<noteq> 1 / 8
   \<and> \<not> (17 / 4096 :: rat) * 60 \<le> 3 / 25 + 3 / 25
   \<and> build_segments_plan binary64 ''A'' (17 / 4096) (1 / 8) 1 1 1
       = Inr [\<lparr>seg_index = 1,
               seg_prompt = ''A (Segment 1/2. Houd stijl, personages en camera gelijkmatig).'',
               seg_seconds = binary64 (3 / 25), seg_frames = 1\<rparr>,
              \<lparr>seg_index = 2,
               seg_prompt = ''A (Segment 2/2. Houd stijl, personages en camera gelijkmatig).'',
               seg_seconds = binary64 (3 / 25), seg_frames = 1\<rparr>]
   \<and> \<not> 1 / 8 \<le> binary64 (3 / 25)
   \<and> \<not> (17 / 4096 :: rat) * 60 \<le> binary64 (3 / 25) + binary64 (3 / 25)
   \<and> (0::rat) < binary64 (13 / 20) \<and> (0::rat) < binary64 (39 / 10) \<and> (0::rat) < 8
   \<and> (0::int) < 8 \<and> (0::int) < 2
   \<and> map_sum id (map seg_seconds)
         (build_segments_plan binary64 ''A'' (binary64 (13 / 20)) (binary64 (39 / 10)) 8 8 2)
       = Inr (replicate 10 (binary64 (39 / 10)))
   \<and> binary64 (binary64 (13 / 20) * 60) = 39
   \<and> map (duration_of binary64 39 (binary64 (39 / 10)) 10) [0..<10]
       = replicate 10 (binary64 (39 / 10))
   \<and> \<not> 39 \<le> sum_list (replicate 10 (binary64 (39 / 10)))
   \<and> \<not> binary64 (13 / 20) * 60 \<le> sum_list (replicate 10 (binary64 (39 / 10)))"
proof -
  have "build_segments_plan exact ''A'' (17 / 4096) (1 / 8) 1 1 1
       = Inr [\<lparr>seg_index = 1,
               seg_prompt = ''A (Segment 1/2. Houd stijl, personages en camera gelijkmatig).'',
               seg_seconds = 3 / 25, seg_frames = 1\<rparr>,
              \<lparr>seg_index = 2,
               seg_prompt = ''A (Segment 2/2. Houd stijl, personages en camera gelijkmatig).'',
               seg_seconds = 3 / 25, seg_frames = 1\<rparr>]"
    by code_simp
  moreover have "build_segments_plan binary64 ''A'' (17 / 4096) (1 / 8) 1 1 1
       = Inr [\<lparr>seg_index = 1,
               seg_prompt = ''A (Segment 1/2. Houd stijl, personages en camera gelijkmatig).'',
               seg_seconds = binary64 (3 / 25), seg_frames = 1\<rparr>,
              \<lparr>seg_index = 2,
               seg_prompt = ''A (Segment 2/2. Houd stijl, personages en camera gelijkmatig).'',
               seg_seconds = binary64 (3 / 25), seg_frames = 1\<rparr>]"
    by code_simp
  moreover have "\<not> 1 / 8 \<le> binary64 (3 / 25)" by code_simp
  moreover have "\<not> (17 / 4096 :: rat) * 60 \<le> binary64 (3 / 25) + binary64 (3 / 25)" by code_simp
  moreover have "(0::rat) < binary64 (13 / 20)" "(0::rat) < binary64 (39 / 10)" by code_simp+
  moreover have "map_sum id (map seg_seconds)
         (build_segments_plan binary64 ''A'' (binary64 (13 / 20)) (binary64 (39 / 10)) 8 8 2)
       = Inr (replicate 10 (binary64 (39 / 10)))"
    by code_simp
  moreover have "binary64 (binary64 (13 / 20) * 60) = 39" by code_simp
  moreover have "map (duration_of binary64 39 (binary64 (39 / 10)) 10) [0..<10]
       = replicate 10 (binary64 (39 / 10))"
    by code_simp
  moreover have "\<not> 39 \<le> sum_list (replicate 10 (binary64 (39 / 10)))" by code_simp
  moreover have "\<not> binary64 (13 / 20) * 60 \<le> sum_list (replicate 10 (binary64 (39 / 10)))"
    by code_simp
  ultimately show ?thesis by simp
qed

text \<open>
  C6, amended. For all valid inputs, with \<open>d idx\<close> the duration the planner computes for
  entry \<open>idx\<close>: every entry before the last has \<open>d idx = segment_seconds\<close>, the last has
  \<open>d idx \<ge> segment_seconds\<close>, and the \<open>seconds\<close> of an entry is \<open>d idx\<close> rounded to two
  decimals. When \<open>segment_seconds\<close> has at most two decimals (it is \<open>k / 100\<close> for a positive
  integer \<open>k\<close>; in \<open>float\<close> arithmetic the \<open>float\<close> nearest to it, with \<open>k < 2^52\<close>), in exact
  and in \<open>float\<close> arithmetic alike, the claim holds of \<open>seconds\<close> itself: every entry before
  the last has \<open>seconds = segment_seconds\<close>, these sum to
  \<open>segment_seconds * (count - 1)\<close>, and the last has \<open>seconds \<ge> segment_seconds\<close>. The
  durations, and with such a segment length the \<open>seconds\<close>, sum to at least the total
  seconds in exact arithmetic, and in \<open>float\<close> arithmetic to at least the computed total
  times \<open>1 - 2^-53\<close>. In exact arithmetic \<open>seconds\<close> is at most 0.005 away from the
  duration.
\<close>

theorem durations_and_seconds:
  fixes total_minutes segment_seconds fps :: rat and rnd :: "rat \<Rightarrow> rat"
  assumes "0 < total_minutes" "0 < segment_seconds" "0 < fps" "0 < min_frames" "0 < frame_step"
  defines "n \<equiv> max 1 \<lceil>rnd (rnd (total_minutes * 60) / segment_seconds)\<rceil>"
  defines "d \<equiv> duration_of rnd (rnd (total_minutes * 60)) segment_seconds n"
  shows "\<exists>plan. build_segments_plan rnd prompt total_minutes segment_seconds fps min_frames frame_step
                 = Inr plan
          \<and> int (length plan) = n
          \<and> (\<forall>idx < length plan - 1. d idx = segment_seconds)
          \<and> segment_seconds \<le> d (length plan - 1)
          \<and> (\<forall>idx < length plan. seg_seconds (plan ! idx) = rnd (py_round_ndigits (d idx) 2))
          \<and> ((\<exists>k::int. 0 < k \<and> (rnd = exact \<or> rnd = binary64 \<and> k < 2 ^ 52)
                  \<and> segment_seconds = rnd (of_int k / 100)) \<longrightarrow>
                (\<forall>idx < length plan - 1. seg_seconds (plan ! idx) = segment_seconds)
              \<and> sum_list (map seg_seconds (butlast plan)) = segment_seconds * of_int (n - 1)
              \<and> segment_seconds \<le> seg_seconds (last plan)
              \<and> rnd (total_minutes * 60) * (1 - 1 / 2 ^ 53) \<le> sum_list (map seg_seconds plan)
              \<and> (rnd = exact \<longrightarrow> total_minutes * 60 \<le> sum_list (map seg_seconds plan)))
          \<and> (rnd = exact \<or> rnd = binary64 \<longrightarrow>
                rnd (total_minutes * 60) * (1 - 1 / 2 ^ 53) \<le> (\<Sum>idx < length plan. d idx))
          \<and> (rnd = exact \<longrightarrow>
                total_minutes * 60 \<le> (\<Sum>idx < length plan. d idx)
              \<and> (\<forall>idx < length plan. \<bar>seg_seconds (plan ! idx) - d idx\<bar> \<le> 1 / 200))"
proof -
  obtain chunks plan where
    p: "build_segments_plan rnd prompt total_minutes segment_seconds fps min_frames frame_step = Inr plan"
    and m: "plan = map (\<lambda>idx.
           \<lparr>seg_index = int idx + 1,
            seg_prompt = segment_prompt_of (chunks ! idx) idx n,
            seg_seconds = rnd (py_round_ndigits (d idx) 2),
            seg_frames = max min_frames
              (py_round (rnd (rnd (d idx * fps) / of_int frame_step)) * frame_step)\<rparr>)
          [0..<nat n]"
    using plan_shape [where segment_seconds = segment_seconds and frame_step = frame_step
        and rnd = rnd and total_minutes = total_minutes and prompt = prompt and fps = fps
        and min_frames = min_frames] assms(2,5)
    unfolding n_def d_def by auto
  have n1: "1 \<le> n" unfolding n_def by simp
  have l: "int (length plan) = n" unfolding m using n1 by simp
  have ne: "plan \<noteq> []" using l n1 by auto
  have ln: "(of_nat (length plan) :: rat) = of_int n" using l by (metis of_int_of_nat_eq)
  have 1: "\<forall>idx < length plan - 1. d idx = segment_seconds"
  proof (intro allI impI)
    fix idx assume "idx < length plan - 1"
    then have "int idx < n - 1" using l by linarith
    then show "d idx = segment_seconds" unfolding d_def by (rule duration_before_last)
  qed
  have 2: "segment_seconds \<le> d (length plan - 1)" unfolding d_def by (rule duration_ge_nominal)
  have 3: "\<forall>idx < length plan. seg_seconds (plan ! idx) = rnd (py_round_ndigits (d idx) 2)"
    unfolding m by simp
  have cover: "rnd (total_minutes * 60) * (1 - 1 / 2 ^ 53) \<le> segment_seconds * of_int n"
    if rr: "rnd = exact \<or> rnd = binary64"
  proof -
    have "0 \<le> total_minutes * 60" using assms(1) by simp
    then have "0 \<le> rnd (total_minutes * 60)"
      using rr binary64_nonneg [of "total_minutes * 60"] by (auto simp: exact_def)
    with rr assms(2) show ?thesis unfolding n_def by (rule count_covers)
  qed
  have tot: "total_minutes * 60 \<le> segment_seconds * of_int n" if r: "rnd = exact"
  proof -
    have n': "n = max 1 \<lceil>total_minutes * 60 / segment_seconds\<rceil>"
      unfolding n_def r by (simp add: exact_def)
    show ?thesis
      using remainder_le_nominal [OF assms(2), of "total_minutes * 60"]
      unfolding n' by (simp add: algebra_simps)
  qed
  have dsum: "segment_seconds * of_int n \<le> (\<Sum>idx < length plan. d idx)"
  proof -
    have "(\<Sum>idx < length plan. segment_seconds) \<le> (\<Sum>idx < length plan. d idx)"
      by (rule sum_mono) (simp add: d_def duration_ge_nominal)
    moreover have "(\<Sum>idx < length plan. segment_seconds) = of_nat (length plan) * segment_seconds"
      by simp
    ultimately show ?thesis unfolding ln by (simp only: mult.commute)
  qed
  have 4: "(\<exists>k::int. 0 < k \<and> (rnd = exact \<or> rnd = binary64 \<and> k < 2 ^ 52)
                  \<and> segment_seconds = rnd (of_int k / 100)) \<longrightarrow>
                (\<forall>idx < length plan - 1. seg_seconds (plan ! idx) = segment_seconds)
              \<and> sum_list (map seg_seconds (butlast plan)) = segment_seconds * of_int (n - 1)
              \<and> segment_seconds \<le> seg_seconds (last plan)
              \<and> rnd (total_minutes * 60) * (1 - 1 / 2 ^ 53) \<le> sum_list (map seg_seconds plan)
              \<and> (rnd = exact \<longrightarrow> total_minutes * 60 \<le> sum_list (map seg_seconds plan))"
  proof
    assume "\<exists>k::int. 0 < k \<and> (rnd = exact \<or> rnd = binary64 \<and> k < 2 ^ 52)
                  \<and> segment_seconds = rnd (of_int k / 100)"
    then obtain k :: int where k0: "0 < k"
      and hk: "rnd = exact \<or> (rnd = binary64 \<and> k < 2 ^ 52)"
      and sk: "segment_seconds = rnd (of_int k / 100)" by blast
    from hk have rr: "rnd = exact \<or> rnd = binary64" by blast
    have pk: "py_round_ndigits segment_seconds 2 = of_int k / 100"
      and fx: "rnd (py_round_ndigits segment_seconds 2) = segment_seconds"
      using hundredths_fixed [OF hk k0 sk] by blast+
    have a': "\<forall>idx < length plan - 1. seg_seconds (plan ! idx) = segment_seconds"
    proof (intro allI impI)
      fix idx assume i: "idx < length plan - 1"
      then have "idx < length plan" by simp
      then have "seg_seconds (plan ! idx) = rnd (py_round_ndigits (d idx) 2)" using 3 by blast
      also have "d idx = segment_seconds" using 1 i by blast
      finally show "seg_seconds (plan ! idx) = segment_seconds" unfolding fx .
    qed
    have "map seg_seconds (butlast plan) = replicate (length plan - 1) segment_seconds"
    proof (rule nth_equalityI)
      show "length (map seg_seconds (butlast plan))
              = length (replicate (length plan - 1) segment_seconds)" by simp
    next
      fix i assume "i < length (map seg_seconds (butlast plan))"
      then have i: "i < length plan - 1" by simp
      then have "map seg_seconds (butlast plan) ! i = seg_seconds (plan ! i)"
        by (simp add: nth_butlast)
      also have "\<dots> = segment_seconds" using a' i by blast
      finally show "map seg_seconds (butlast plan) ! i
                      = replicate (length plan - 1) segment_seconds ! i" using i by simp
    qed
    then have "sum_list (map seg_seconds (butlast plan)) = of_nat (length plan - 1) * segment_seconds"
      by (simp add: sum_list_replicate)
    also have "(of_nat (length plan - 1) :: rat) = of_int (n - 1)"
    proof -
      have "1 \<le> length plan" using l n1 by linarith
      then have "int (length plan - 1) = int (length plan) - 1" by (simp add: of_nat_diff)
      then have "int (length plan - 1) = n - 1" unfolding l .
      then show ?thesis by (metis of_int_of_nat_eq)
    qed
    finally have b': "sum_list (map seg_seconds (butlast plan)) = segment_seconds * of_int (n - 1)"
      by (simp only: mult.commute)
    have "seg_seconds (last plan) = seg_seconds (plan ! (length plan - 1))"
      unfolding last_conv_nth [OF ne] ..
    also have "\<dots> = rnd (py_round_ndigits (d (length plan - 1)) 2)" using 3 ne by simp
    finally have sl: "seg_seconds (last plan) = rnd (py_round_ndigits (d (length plan - 1)) 2)" .
    have z: "0 \<le> py_round_ndigits segment_seconds 2" unfolding pk using k0 by simp
    have y: "py_round_ndigits segment_seconds 2 \<le> py_round_ndigits (d (length plan - 1)) 2"
      using 2 by (rule py_round_ndigits_mono)
    have "rnd (py_round_ndigits segment_seconds 2)
            \<le> rnd (py_round_ndigits (d (length plan - 1)) 2)"
      by (rule rounding_mono [of rnd "py_round_ndigits segment_seconds 2"
            "py_round_ndigits (d (length plan - 1)) 2", OF rr z y])
    then have c': "segment_seconds \<le> seg_seconds (last plan)" unfolding fx sl .
    have "sum_list (map seg_seconds (butlast plan @ [last plan]))
            = sum_list (map seg_seconds (butlast plan)) + seg_seconds (last plan)"
      by simp
    then have "sum_list (map seg_seconds plan)
                 = sum_list (map seg_seconds (butlast plan)) + seg_seconds (last plan)"
      unfolding append_butlast_last_id [OF ne] .
    then have "segment_seconds * of_int (n - 1) + segment_seconds \<le> sum_list (map seg_seconds plan)"
      using b' c' by linarith
    moreover have "segment_seconds * of_int (n - 1) + segment_seconds = segment_seconds * of_int n"
      by (simp add: algebra_simps)
    ultimately have s: "segment_seconds * of_int n \<le> sum_list (map seg_seconds plan)" by simp
    have d': "rnd (total_minutes * 60) * (1 - 1 / 2 ^ 53) \<le> sum_list (map seg_seconds plan)"
      using cover [OF rr] s by (rule order_trans)
    have e': "rnd = exact \<longrightarrow> total_minutes * 60 \<le> sum_list (map seg_seconds plan)"
    proof
      assume "rnd = exact"
      then have "total_minutes * 60 \<le> segment_seconds * of_int n" by (rule tot)
      then show "total_minutes * 60 \<le> sum_list (map seg_seconds plan)"
        using s by (rule order_trans)
    qed
    show "(\<forall>idx < length plan - 1. seg_seconds (plan ! idx) = segment_seconds)
              \<and> sum_list (map seg_seconds (butlast plan)) = segment_seconds * of_int (n - 1)
              \<and> segment_seconds \<le> seg_seconds (last plan)
              \<and> rnd (total_minutes * 60) * (1 - 1 / 2 ^ 53) \<le> sum_list (map seg_seconds plan)
              \<and> (rnd = exact \<longrightarrow> total_minutes * 60 \<le> sum_list (map seg_seconds plan))"
      by (intro conjI) (rule a' b' c' d' e')+
  qed
  have 5: "rnd = exact \<or> rnd = binary64 \<longrightarrow>
                rnd (total_minutes * 60) * (1 - 1 / 2 ^ 53) \<le> (\<Sum>idx < length plan. d idx)"
  proof
    assume "rnd = exact \<or> rnd = binary64"
    then have "rnd (total_minutes * 60) * (1 - 1 / 2 ^ 53) \<le> segment_seconds * of_int n"
      by (rule cover)
    then show "rnd (total_minutes * 60) * (1 - 1 / 2 ^ 53) \<le> (\<Sum>idx < length plan. d idx)"
      using dsum by (rule order_trans)
  qed
  have 6: "rnd = exact \<longrightarrow>
                total_minutes * 60 \<le> (\<Sum>idx < length plan. d idx)
              \<and> (\<forall>idx < length plan. \<bar>seg_seconds (plan ! idx) - d idx\<bar> \<le> 1 / 200)"
  proof
    assume r: "rnd = exact"
    have a: "total_minutes * 60 \<le> (\<Sum>idx < length plan. d idx)"
      using tot [OF r] dsum by (rule order_trans)
    have b: "\<forall>idx < length plan. \<bar>seg_seconds (plan ! idx) - d idx\<bar> \<le> 1 / 200"
      unfolding m r using py_round_ndigits_close by (simp add: exact_def)
    from a b show "total_minutes * 60 \<le> (\<Sum>idx < length plan. d idx)
              \<and> (\<forall>idx < length plan. \<bar>seg_seconds (plan ! idx) - d idx\<bar> \<le> 1 / 200)" by blast
  qed
  show ?thesis
    by (intro exI [of _ plan] conjI) (rule p l 1 2 3 4 5 6)+
qed

theorem durations_and_seconds_witness:
  "(0::rat) < 1 / 2 \<and> (0::rat) < binary64 (73 / 10) \<and> (0::rat) < 10 \<and> (0::int) < 8 \<and> (0::int) < 2
   \<and> (\<exists>k::int. 0 < k \<and> (binary64 = exact \<or> binary64 = binary64 \<and> k < 2 ^ 52)
          \<and> binary64 (73 / 10) = binary64 (of_int k / 100))
   \<and> (\<exists>plan. build_segments_plan binary64 ''Een uitgebreid verhaal dat in delen wordt verteld.''
                 (1 / 2) (binary64 (73 / 10)) 10 8 2 = Inr plan
        \<and> map seg_seconds plan
            = [binary64 (73 / 10), binary64 (73 / 10), binary64 (73 / 10), binary64 (73 / 10),
               binary64 (73 / 10)]
        \<and> sum_list (map seg_seconds (butlast plan)) = binary64 (73 / 10) * of_int (5 - 1)
        \<and> binary64 (73 / 10) \<le> seg_seconds (last plan)
        \<and> binary64 (1 / 2 * 60) * (1 - 1 / 2 ^ 53) \<le> sum_list (map seg_seconds plan))
   \<and> (0::rat) < 7 \<and> exact = exact
   \<and> (\<exists>k::int. 0 < k \<and> (exact = exact \<or> exact = binary64 \<and> k < 2 ^ 52)
          \<and> (7::rat) = exact (of_int k / 100))
   \<and> (\<exists>plan. build_segments_plan exact ''Een uitgebreid verhaal dat in delen wordt verteld.''
                 (1 / 2) 7 10 8 2 = Inr plan
        \<and> map seg_seconds plan = [7, 7, 7, 7, 7]
        \<and> sum_list (map seg_seconds (butlast plan)) = 7 * of_int (5 - 1)
        \<and> 7 \<le> seg_seconds (last plan)
        \<and> (1 / 2) * 60 \<le> sum_list (map seg_seconds plan))"
proof -
  let ?p = "''Een uitgebreid verhaal dat in delen wordt verteld.''"
  let ?s = "binary64 (73 / 10)"
  have s0: "(0::rat) < ?s" by code_simp
  have f: "(0::rat) < 1 / 2" "(0::rat) < ?s" "(0::rat) < 10" "(0::int) < 8" "(0::int) < 2"
    using s0 by simp_all
  have kf: "\<exists>k::int. 0 < k \<and> (binary64 = exact \<or> binary64 = binary64 \<and> k < 2 ^ 52)
              \<and> ?s = binary64 (of_int k / 100)"
    by (rule exI [of _ 730]) simp
  have nf: "max 1 \<lceil>binary64 (binary64 ((1 / 2 :: rat) * 60) / ?s)\<rceil> = 5" by code_simp
  have ef: "map seg_seconds (projr (build_segments_plan binary64 ?p (1 / 2) ?s 10 8 2))
              = [?s, ?s, ?s, ?s, ?s]"
    by code_simp
  obtain plan where p: "build_segments_plan binary64 ?p (1 / 2) ?s 10 8 2 = Inr plan"
    and i: "(\<exists>k::int. 0 < k \<and> (binary64 = exact \<or> binary64 = binary64 \<and> k < 2 ^ 52)
                  \<and> ?s = binary64 (of_int k / 100)) \<longrightarrow>
                (\<forall>idx < length plan - 1. seg_seconds (plan ! idx) = ?s)
              \<and> sum_list (map seg_seconds (butlast plan)) = ?s * of_int (5 - 1)
              \<and> ?s \<le> seg_seconds (last plan)
              \<and> binary64 (1 / 2 * 60) * (1 - 1 / 2 ^ 53) \<le> sum_list (map seg_seconds plan)
              \<and> (binary64 = exact \<longrightarrow> 1 / 2 * 60 \<le> sum_list (map seg_seconds plan))"
    using durations_and_seconds [OF f, where rnd = binary64 and prompt = ?p] unfolding nf
    by (elim exE conjE) (rule that; assumption)
  have m: "map seg_seconds plan = [?s, ?s, ?s, ?s, ?s]" using ef p by simp
  have j: "sum_list (map seg_seconds (butlast plan)) = ?s * of_int (5 - 1)"
    "?s \<le> seg_seconds (last plan)"
    "binary64 (1 / 2 * 60) * (1 - 1 / 2 ^ 53) \<le> sum_list (map seg_seconds plan)"
    using i kf by blast+
  have 1: "\<exists>plan. build_segments_plan binary64 ?p (1 / 2) ?s 10 8 2 = Inr plan
        \<and> map seg_seconds plan = [?s, ?s, ?s, ?s, ?s]
        \<and> sum_list (map seg_seconds (butlast plan)) = ?s * of_int (5 - 1)
        \<and> ?s \<le> seg_seconds (last plan)
        \<and> binary64 (1 / 2 * 60) * (1 - 1 / 2 ^ 53) \<le> sum_list (map seg_seconds plan)"
    by (intro exI [of _ plan] conjI) (rule p m j)+
  have h: "(0::rat) < 1 / 2" "(0::rat) < 7" "(0::rat) < 10" "(0::int) < 8" "(0::int) < 2"
    by simp_all
  have ke: "\<exists>k::int. 0 < k \<and> (exact = exact \<or> exact = binary64 \<and> k < 2 ^ 52)
              \<and> (7::rat) = exact (of_int k / 100)"
    by (rule exI [of _ 700]) (simp add: exact_def)
  have ne: "max 1 \<lceil>exact (exact ((1 / 2 :: rat) * 60) / 7)\<rceil> = 5" by code_simp
  have ee: "map seg_seconds (projr (build_segments_plan exact ?p (1 / 2) 7 10 8 2)) = [7, 7, 7, 7, 7]"
    by code_simp
  obtain plan' where p': "build_segments_plan exact ?p (1 / 2) 7 10 8 2 = Inr plan'"
    and i': "(\<exists>k::int. 0 < k \<and> (exact = exact \<or> exact = binary64 \<and> k < 2 ^ 52)
                  \<and> (7::rat) = exact (of_int k / 100)) \<longrightarrow>
                (\<forall>idx < length plan' - 1. seg_seconds (plan' ! idx) = 7)
              \<and> sum_list (map seg_seconds (butlast plan')) = 7 * of_int (5 - 1)
              \<and> 7 \<le> seg_seconds (last plan')
              \<and> exact (1 / 2 * 60) * (1 - 1 / 2 ^ 53) \<le> sum_list (map seg_seconds plan')
              \<and> (exact = exact \<longrightarrow> 1 / 2 * 60 \<le> sum_list (map seg_seconds plan'))"
    using durations_and_seconds [OF h, where rnd = exact and prompt = ?p] unfolding ne
    by (elim exE conjE) (rule that; assumption)
  have m': "map seg_seconds plan' = [7, 7, 7, 7, 7]" using ee p' by simp
  have j': "sum_list (map seg_seconds (butlast plan')) = 7 * of_int (5 - 1)"
    "7 \<le> seg_seconds (last plan')"
    "(1 / 2) * 60 \<le> sum_list (map seg_seconds plan')"
    using i' ke by blast+
  have 2: "\<exists>plan. build_segments_plan exact ?p (1 / 2) 7 10 8 2 = Inr plan
        \<and> map seg_seconds plan = [7, 7, 7, 7, 7]
        \<and> sum_list (map seg_seconds (butlast plan)) = 7 * of_int (5 - 1)
        \<and> 7 \<le> seg_seconds (last plan)
        \<and> (1 / 2) * 60 \<le> sum_list (map seg_seconds plan)"
    by (intro exI [of _ plan'] conjI) (rule p' m' j')+
  have r: "exact = exact" ..
  show ?thesis
    by (intro conjI) (rule f kf 1 h(2) r ke 2)+
qed

text \<open>
  C7, as stated, fails: the suffix the code appends is Dutch, not the English sentence of
  the claim.
\<close>

theorem continuity_suffix_counterexample:
  "(0::rat) < 1 / 16 \<and> (0::rat) < 15 / 4 \<and> (0::rat) < 1 \<and> (0::int) < 1
   \<and> build_segments_plan binary64 ''A'' (1 / 16) (15 / 4) 1 1 1
       = Inr [\<lparr>seg_index = 1,
               seg_prompt = ''A (Segment 1/1. Houd stijl, personages en camera gelijkmatig).'',
               seg_seconds = 15 / 4, seg_frames = 4\<rparr>]
   \<and> build_segments_plan exact ''A'' (1 / 16) (15 / 4) 1 1 1
       = Inr [\<lparr>seg_index = 1,
               seg_prompt = ''A (Segment 1/1. Houd stijl, personages en camera gelijkmatig).'',
               seg_seconds = 15 / 4, seg_frames = 4\<rparr>]
   \<and> split_prompt ''A'' 1 = Inr [''A'']
   \<and> ''A (Segment 1/1. Houd stijl, personages en camera gelijkmatig).''
       \<noteq> ''A'' @ '' (Segment 1/1. Keep style, characters and camera consistent).''"
proof -
  have "build_segments_plan binary64 ''A'' (1 / 16) (15 / 4) 1 1 1
       = Inr [\<lparr>seg_index = 1,
               seg_prompt = ''A (Segment 1/1. Houd stijl, personages en camera gelijkmatig).'',
               seg_seconds = 15 / 4, seg_frames = 4\<rparr>]"
    by code_simp
  moreover have "build_segments_plan exact ''A'' (1 / 16) (15 / 4) 1 1 1
       = Inr [\<lparr>seg_index = 1,
               seg_prompt = ''A (Segment 1/1. Houd stijl, personages en camera gelijkmatig).'',
               seg_seconds = 15 / 4, seg_frames = 4\<rparr>]"
    by code_simp
  moreover have "split_prompt ''A'' 1 = Inr [''A'']" by code_simp
  ultimately show ?thesis by simp
qed

text \<open>
  C7, amended. For every segment index \<open>idx\<close> (0-based) of every plan produced for valid
  inputs, the emitted prompt is exactly the chunk of \<open>_split_prompt\<close> for that segment
  followed by \<open>" (Segment <idx+1>/<count>. Houd stijl, personages en camera gelijkmatig)."\<close>,
  the same suffix text for every chunk.
\<close>

theorem segment_prompt_annotated:
  fixes total_minutes segment_seconds fps :: rat and rnd :: "rat \<Rightarrow> rat"
  assumes "0 < total_minutes" "0 < segment_seconds" "0 < fps" "0 < min_frames" "0 < frame_step"
  defines "n \<equiv> max 1 \<lceil>rnd (rnd (total_minutes * 60) / segment_seconds)\<rceil>"
  shows "\<exists>chunks plan.
            split_prompt prompt n = Inr chunks
          \<and> build_segments_plan rnd prompt total_minutes segment_seconds fps min_frames frame_step
              = Inr plan
          \<and> length plan = length chunks
          \<and> int (length plan) = n
          \<and> (\<forall>idx < length plan.
                seg_prompt (plan ! idx)
                = chunks ! idx @ '' (Segment '' @ str_int (int idx + 1) @ ''/'' @ str_int n
                    @ ''. Houd stijl, personages en camera gelijkmatig).'')"
proof -
  let ?d = "duration_of rnd (rnd (total_minutes * 60)) segment_seconds n"
  obtain chunks plan where
    c: "split_prompt prompt n = Inr chunks" "length chunks = nat n"
    and p: "build_segments_plan rnd prompt total_minutes segment_seconds fps min_frames frame_step = Inr plan"
    and m: "plan = map (\<lambda>idx.
           \<lparr>seg_index = int idx + 1,
            seg_prompt = segment_prompt_of (chunks ! idx) idx n,
            seg_seconds = rnd (py_round_ndigits (?d idx) 2),
            seg_frames = max min_frames
              (py_round (rnd (rnd (?d idx * fps) / of_int frame_step)) * frame_step)\<rparr>) [0..<nat n]"
    using plan_shape [where segment_seconds = segment_seconds and frame_step = frame_step
        and rnd = rnd and total_minutes = total_minutes and prompt = prompt and fps = fps
        and min_frames = min_frames] assms(2,5)
    unfolding n_def by auto
  have n1: "1 \<le> n" unfolding n_def by simp
  have l: "length plan = length chunks" unfolding m c(2) by simp
  have l': "int (length plan) = n" unfolding m using n1 by simp
  have a: "\<forall>idx < length plan.
                seg_prompt (plan ! idx)
                = chunks ! idx @ '' (Segment '' @ str_int (int idx + 1) @ ''/'' @ str_int n
                    @ ''. Houd stijl, personages en camera gelijkmatig).''"
    unfolding m by (simp add: segment_prompt_of_def continuity_def)
  from c(1) p l l' a show ?thesis by blast
qed

theorem segment_prompt_annotated_witness:
  "(0::rat) < 1 / 4 \<and> (0::rat) < 7 \<and> (0::rat) < 8 \<and> (0::int) < 8 \<and> (0::int) < 2
   \<and> (\<exists>chunks plan.
          split_prompt ''Een lange prompt met twee zinnen. Nog een stukje prompt.'' 3 = Inr chunks
        \<and> chunks = [''Een lange prompt met twee zinnen.'', ''Nog een stukje prompt.'',
                     ''Nog een stukje prompt.'']
        \<and> build_segments_plan binary64 ''Een lange prompt met twee zinnen. Nog een stukje prompt.''
                 (1 / 4) 7 8 8 2 = Inr plan
        \<and> length plan = length chunks
        \<and> seg_prompt (plan ! 1)
            = chunks ! 1 @ '' (Segment '' @ str_int 2 @ ''/'' @ str_int 3
                @ ''. Houd stijl, personages en camera gelijkmatig).'')"
proof -
  let ?p = "''Een lange prompt met twee zinnen. Nog een stukje prompt.''"
  have h: "(0::rat) < 1 / 4" "(0::rat) < 7" "(0::rat) < 8" "(0::int) < 8" "(0::int) < 2"
    by simp_all
  have n: "max 1 \<lceil>binary64 (binary64 ((1 / 4 :: rat) * 60) / 7)\<rceil> = 3" by code_simp
  have e: "split_prompt ?p 3 = Inr [''Een lange prompt met twee zinnen.'', ''Nog een stukje prompt.'',
                     ''Nog een stukje prompt.'']"
    by code_simp
  obtain chunks plan where c: "split_prompt ?p 3 = Inr chunks"
    and p: "build_segments_plan binary64 ?p (1 / 4) 7 8 8 2 = Inr plan"
    and l: "length plan = length chunks"
    and a: "\<forall>idx < length plan.
                seg_prompt (plan ! idx)
                = chunks ! idx @ '' (Segment '' @ str_int (int idx + 1) @ ''/'' @ str_int 3
                    @ ''. Houd stijl, personages en camera gelijkmatig).''"
    using segment_prompt_annotated [OF h, where rnd = binary64 and prompt = ?p] unfolding n by blast
  have c': "chunks = [''Een lange prompt met twee zinnen.'', ''Nog een stukje prompt.'',
                     ''Nog een stukje prompt.'']"
    using c e by simp
  then have "1 < length plan" using l by simp
  then have "seg_prompt (plan ! 1)
            = chunks ! 1 @ '' (Segment '' @ str_int 2 @ ''/'' @ str_int 3
                @ ''. Houd stijl, personages en camera gelijkmatig).''"
    using a by fastforce
  then show ?thesis using h c c' p l by (intro conjI exI [of _ plan] exI [of _ chunks]) simp_all
qed

text \<open>
  C9, as stated, fails in \<open>float\<close> arithmetic: for \<open>total_minutes = 0.08\<close> and
  \<open>segment_seconds = 1.2\<close> the remainder \<open>total_seconds - segment_seconds * 3\<close> is computed
  as 1.2000000000000002, above the segment length, so the last of the four segments is
  longer than the others; at 30 frames per second and a frame step of 8 it gets 40 frames
  where the others get 32.
\<close>

theorem last_segment_float_counterexample:
  "0 < binary64 (2 / 25) \<and> 0 < binary64 (6 / 5)
   \<and> build_segments_plan binary64 ''A'' (binary64 (2 / 25)) (binary64 (6 / 5)) 30 8 8
       = Inr [\<lparr>seg_index = 1,
               seg_prompt = ''A (Segment 1/4. Houd stijl, personages en camera gelijkmatig).'',
               seg_seconds = binary64 (6 / 5), seg_frames = 32\<rparr>,
              \<lparr>seg_index = 2,
               seg_prompt = ''A (Segment 2/4. Houd stijl, personages en camera gelijkmatig).'',
               seg_seconds = binary64 (6 / 5), seg_frames = 32\<rparr>,
              \<lparr>seg_index = 3,
               seg_prompt = ''A (Segment 3/4. Houd stijl, personages en camera gelijkmatig).'',
               seg_seconds = binary64 (6 / 5), seg_frames = 32\<rparr>,
              \<lparr>seg_index = 4,
               seg_prompt = ''A (Segment 4/4. Houd stijl, personages en camera gelijkmatig).'',
               seg_seconds = binary64 (6 / 5), seg_frames = 40\<rparr>]
   \<and> duration_of binary64 (binary64 (binary64 (2 / 25) * 60)) (binary64 (6 / 5)) 4 3
       = 1351079888211149 / 1125899906842624
   \<and> binary64 (6 / 5) = 5404319552844595 / 4503599627370496
   \<and> binary64 (6 / 5) < duration_of binary64 (binary64 (binary64 (2 / 25) * 60)) (binary64 (6 / 5)) 4 3"
proof -
  have 1: "0 < binary64 (2 / 25)" and 2: "0 < binary64 (6 / 5)" by code_simp+
  have 3: "build_segments_plan binary64 ''A'' (binary64 (2 / 25)) (binary64 (6 / 5)) 30 8 8
       = Inr [\<lparr>seg_index = 1,
               seg_prompt = ''A (Segment 1/4. Houd stijl, personages en camera gelijkmatig).'',
               seg_seconds = binary64 (6 / 5), seg_frames = 32\<rparr>,
              \<lparr>seg_index = 2,
               seg_prompt = ''A (Segment 2/4. Houd stijl, personages en camera gelijkmatig).'',
               seg_seconds = binary64 (6 / 5), seg_frames = 32\<rparr>,
              \<lparr>seg_index = 3,
               seg_prompt = ''A (Segment 3/4. Houd stijl, personages en camera gelijkmatig).'',
               seg_seconds = binary64 (6 / 5), seg_frames = 32\<rparr>,
              \<lparr>seg_index = 4,
               seg_prompt = ''A (Segment 4/4. Houd stijl, personages en camera gelijkmatig).'',
               seg_seconds = binary64 (6 / 5), seg_frames = 40\<rparr>]"
    by code_simp
  have 4: "duration_of binary64 (binary64 (binary64 (2 / 25) * 60)) (binary64 (6 / 5)) 4 3
       = 1351079888211149 / 1125899906842624"
    by code_simp
  have 5: "binary64 (6 / 5) = 5404319552844595 / 4503599627370496" by code_simp
  have 6: "binary64 (6 / 5)
           < duration_of binary64 (binary64 (binary64 (2 / 25) * 60)) (binary64 (6 / 5)) 4 3"
    by code_simp
  show ?thesis by (intro conjI) (rule 1 2 3 4 5 6)+
qed

text \<open>
  C9, amended. For all valid inputs, every entry of the plan before the last has the
  duration \<open>segment_seconds\<close>, \<open>seconds\<close> equal to \<open>round(segment_seconds, 2)\<close> and one and
  the same \<open>frames\<close> value; the last entry has the duration
  \<open>max(segment_seconds, remainder)\<close>, never below \<open>segment_seconds\<close>. In exact arithmetic
  the remainder \<open>total_seconds - segment_seconds * (count - 1)\<close> never exceeds
  \<open>segment_seconds\<close>, so the last duration is \<open>segment_seconds\<close> exactly and the last entry
  has the \<open>seconds\<close> and \<open>frames\<close> of every other entry.
\<close>

theorem every_segment_nominal:
  fixes total_minutes segment_seconds fps :: rat and rnd :: "rat \<Rightarrow> rat"
  assumes "0 < total_minutes" "0 < segment_seconds" "0 < fps" "0 < min_frames" "0 < frame_step"
  defines "n \<equiv> max 1 \<lceil>rnd (rnd (total_minutes * 60) / segment_seconds)\<rceil>"
  defines "remainder \<equiv> rnd (rnd (total_minutes * 60) - rnd (segment_seconds * of_int (n - 1)))"
  defines "d \<equiv> duration_of rnd (rnd (total_minutes * 60)) segment_seconds n"
  shows "\<exists>plan. build_segments_plan rnd prompt total_minutes segment_seconds fps min_frames frame_step
                 = Inr plan
          \<and> int (length plan) = n
          \<and> (\<forall>idx < length plan - 1.
                d idx = segment_seconds
              \<and> seg_seconds (plan ! idx) = rnd (py_round_ndigits segment_seconds 2)
              \<and> seg_frames (plan ! idx) = max min_frames
                    (py_round (rnd (rnd (segment_seconds * fps) / of_int frame_step)) * frame_step))
          \<and> d (length plan - 1) = max segment_seconds remainder
          \<and> segment_seconds \<le> d (length plan - 1)
          \<and> (rnd = exact \<longrightarrow>
                remainder \<le> segment_seconds
              \<and> d (length plan - 1) = segment_seconds
              \<and> (\<forall>s \<in> set plan.
                    seg_seconds s = py_round_ndigits segment_seconds 2
                  \<and> seg_frames s = max min_frames
                      (py_round (segment_seconds * fps / of_int frame_step) * frame_step)))"
proof -
  obtain chunks plan where
    p: "build_segments_plan rnd prompt total_minutes segment_seconds fps min_frames frame_step = Inr plan"
    and m: "plan = map (\<lambda>idx.
           \<lparr>seg_index = int idx + 1,
            seg_prompt = segment_prompt_of (chunks ! idx) idx n,
            seg_seconds = rnd (py_round_ndigits (d idx) 2),
            seg_frames = max min_frames
              (py_round (rnd (rnd (d idx * fps) / of_int frame_step)) * frame_step)\<rparr>)
          [0..<nat n]"
    using plan_shape [where segment_seconds = segment_seconds and frame_step = frame_step
        and rnd = rnd and total_minutes = total_minutes and prompt = prompt and fps = fps
        and min_frames = min_frames] assms(2,5)
    unfolding n_def d_def by auto
  have n1: "1 \<le> n" unfolding n_def by simp
  have l: "int (length plan) = n" unfolding m using n1 by simp
  have 1: "\<forall>idx < length plan - 1.
                d idx = segment_seconds
              \<and> seg_seconds (plan ! idx) = rnd (py_round_ndigits segment_seconds 2)
              \<and> seg_frames (plan ! idx) = max min_frames
                    (py_round (rnd (rnd (segment_seconds * fps) / of_int frame_step)) * frame_step)"
  proof (intro allI impI)
    fix idx assume i: "idx < length plan - 1"
    then have "int idx < n - 1" using l by linarith
    then have e: "d idx = segment_seconds" unfolding d_def by (rule duration_before_last)
    have "idx < nat n" using i l by linarith
    then have "plan ! idx =
           \<lparr>seg_index = int idx + 1,
            seg_prompt = segment_prompt_of (chunks ! idx) idx n,
            seg_seconds = rnd (py_round_ndigits (d idx) 2),
            seg_frames = max min_frames
              (py_round (rnd (rnd (d idx * fps) / of_int frame_step)) * frame_step)\<rparr>"
      unfolding m by simp
    then show "d idx = segment_seconds
              \<and> seg_seconds (plan ! idx) = rnd (py_round_ndigits segment_seconds 2)
              \<and> seg_frames (plan ! idx) = max min_frames
                    (py_round (rnd (rnd (segment_seconds * fps) / of_int frame_step)) * frame_step)"
      unfolding e by simp
  qed
  have "\<not> int (length plan - 1) < n - 1" using l n1 by linarith
  then have 2: "d (length plan - 1) = max segment_seconds remainder"
    unfolding d_def remainder_def duration_of_def by simp
  have 3: "segment_seconds \<le> d (length plan - 1)" unfolding d_def by (rule duration_ge_nominal)
  have 4: "rnd = exact \<longrightarrow>
                remainder \<le> segment_seconds
              \<and> d (length plan - 1) = segment_seconds
              \<and> (\<forall>s \<in> set plan.
                    seg_seconds s = py_round_ndigits segment_seconds 2
                  \<and> seg_frames s = max min_frames
                      (py_round (segment_seconds * fps / of_int frame_step) * frame_step))"
  proof
    assume r: "rnd = exact"
    have n': "n = max 1 \<lceil>total_minutes * 60 / segment_seconds\<rceil>"
      unfolding n_def r by (simp add: exact_def)
    have a: "remainder \<le> segment_seconds"
      unfolding remainder_def r n' using remainder_le_nominal [OF assms(2), of "total_minutes * 60"]
      by (simp add: exact_def)
    have dn: "\<And>idx. d idx = segment_seconds"
      unfolding d_def n_def r using duration_nominal [OF assms(2), of "exact (total_minutes * 60)"]
      by simp
    have c: "\<forall>s \<in> set plan.
                    seg_seconds s = py_round_ndigits segment_seconds 2
                  \<and> seg_frames s = max min_frames
                      (py_round (segment_seconds * fps / of_int frame_step) * frame_step)"
      unfolding m dn r by (auto simp: exact_def)
    from a dn c show "remainder \<le> segment_seconds
              \<and> d (length plan - 1) = segment_seconds
              \<and> (\<forall>s \<in> set plan.
                    seg_seconds s = py_round_ndigits segment_seconds 2
                  \<and> seg_frames s = max min_frames
                      (py_round (segment_seconds * fps / of_int frame_step) * frame_step))"
      by blast
  qed
  show ?thesis
    by (intro exI [of _ plan] conjI) (rule p l 1 2 3 4)+
qed

theorem every_segment_nominal_witness:
  "(0::rat) < 1 / 4 \<and> (0::rat) < 7 \<and> (0::rat) < 8 \<and> (0::int) < 8 \<and> (0::int) < 2
   \<and> exact = exact
   \<and> (\<exists>plan. build_segments_plan exact ''Een lange prompt met twee zinnen. Nog een stukje prompt.''
                 (1 / 4) 7 8 8 2 = Inr plan
        \<and> int (length plan) = 3
        \<and> map seg_seconds plan = [7, 7, 7]
        \<and> map seg_frames plan = [56, 56, 56]
        \<and> exact (exact ((1 / 4) * 60) - exact (7 * of_int (3 - 1))) \<le> 7
        \<and> (\<forall>s \<in> set plan.
                  seg_seconds s = py_round_ndigits 7 2
                \<and> seg_frames s = max 8 (py_round (7 * 8 / of_int 2) * 2)))"
proof -
  let ?p = "''Een lange prompt met twee zinnen. Nog een stukje prompt.''"
  have h: "(0::rat) < 1 / 4" "(0::rat) < 7" "(0::rat) < 8" "(0::int) < 8" "(0::int) < 2"
    by simp_all
  have n: "max 1 \<lceil>exact (exact ((1 / 4 :: rat) * 60) / 7)\<rceil> = 3" by code_simp
  have e: "map seg_seconds (projr (build_segments_plan exact ?p (1 / 4) 7 8 8 2)) = [7, 7, 7]"
    by code_simp
  have e': "map seg_frames (projr (build_segments_plan exact ?p (1 / 4) 7 8 8 2)) = [56, 56, 56]"
    by code_simp
  note t = every_segment_nominal [OF h, where rnd = exact and prompt = ?p, unfolded n]
  from t obtain plan where p: "build_segments_plan exact ?p (1 / 4) 7 8 8 2 = Inr plan"
    and l: "int (length plan) = 3"
    and a: "exact = exact \<longrightarrow>
                exact (exact ((1 / 4) * 60) - exact (7 * of_int (3 - 1))) \<le> 7
              \<and> duration_of exact (exact ((1 / 4) * 60)) 7 3 (length plan - 1) = 7
              \<and> (\<forall>s \<in> set plan.
                    seg_seconds s = py_round_ndigits 7 2
                  \<and> seg_frames s = max 8 (py_round (7 * 8 / of_int 2) * 2))"
    by (elim exE conjE) (rule that; assumption)
  from a have r: "exact (exact ((1 / 4) * 60) - exact (7 * of_int (3 - 1))) \<le> (7 :: rat)"
    and s: "\<forall>s \<in> set plan.
                    seg_seconds s = py_round_ndigits 7 2
                  \<and> seg_frames s = max 8 (py_round (7 * 8 / of_int 2) * 2)"
    by blast+
  have v: "map seg_seconds plan = [7, 7, 7]" "map seg_frames plan = [56, 56, 56]"
    using e e' p by simp_all
  show ?thesis
    by (intro conjI exI [of _ plan]) (rule h refl p l v r s)+
qed

section \<open>The entry point\<close>

lemma map_of_dict_set: "map_of (dict_set k v d) k' = (if k' = k then Some v else map_of d k')"
  by (simp add: dict_set_def update_conv')

lemma map_of_dict_setdefault:
  "map_of (dict_setdefault k v d) k' = (if k' = k \<and> map_of d k = None then Some v else map_of d k')"
  by (auto simp: dict_setdefault_def map_add_def split: option.splits)

lemma fold_submit:
  "fold (\<lambda>s. submit h (f s)) plan w =
   w\<lparr>gen_info := fold (add_video_task h) (map f plan) (gen_info w),
     tasks_submitted := tasks_submitted w @ map f plan\<rparr>"
  by (induction plan arbitrary: w) (simp_all add: submit_def)

lemma fold_host_key:
  "(\<And>t g. map_of (add_video_task h t g) k = map_of g k) \<Longrightarrow>
   map_of (fold (add_video_task h) ts g) k = map_of g k"
  by (induction ts arbitrary: g) simp_all

lemma validate_inputs_None:
  "validate_inputs prompt total_minutes segment_seconds = None \<longleftrightarrow>
   prompt \<noteq> [] \<and> strip prompt \<noteq> [] \<and> 0 < total_minutes \<and> 0 < segment_seconds"
  by (auto simp: validate_inputs_def)

text \<open>
  C8. When the prompt is empty or blank, or the total duration is not positive, or the
  segment length is not positive, \<open>_create_segments\<close> shows one warning and returns its
  markdown: the message for the prompt, else the one for the duration, else the one for
  the segment length, three different texts. It raises nothing (not even where the
  planner would, at a segment length of zero), returns no plan, submits no job and leaves
  the generation info as it was.
\<close>

theorem invalid_input_aborts:
  fixes total_minutes segment_seconds :: rat and rnd :: "rat \<Rightarrow> rat"
  assumes "prompt = [] \<or> strip prompt = [] \<or> total_minutes \<le> 0 \<or> segment_seconds \<le> 0"
  defines "message \<equiv>
     (if prompt = [] \<or> strip prompt = [] then ''Prompt mag niet leeg zijn.''
      else if total_minutes \<le> 0 then ''Totale duur moet groter dan nul zijn.''
      else ''Segmentlengte moet groter dan nul zijn.'')"
  shows "create_segments rnd h state prompt total_minutes segment_seconds w
           = (Inr (Warning_Md message (has_queue_html_container h)),
              w\<lparr>warnings := warnings w @ [message]\<rparr>)
       \<and> gen_info (snd (create_segments rnd h state prompt total_minutes segment_seconds w)) = gen_info w
       \<and> tasks_submitted (snd (create_segments rnd h state prompt total_minutes segment_seconds w))
           = tasks_submitted w
       \<and> distinct [''Prompt mag niet leeg zijn.'', ''Totale duur moet groter dan nul zijn.'',
                    ''Segmentlengte moet groter dan nul zijn.'']"
proof -
  have v: "validate_inputs prompt total_minutes segment_seconds = Some message"
    using assms(1) unfolding message_def validate_inputs_def by auto
  have c: "create_segments rnd h state prompt total_minutes segment_seconds w
           = (Inr (Warning_Md message (has_queue_html_container h)),
              w\<lparr>warnings := warnings w @ [message]\<rparr>)"
    unfolding create_segments_def v by (simp add: build_error_response_def)
  have d: "distinct [''Prompt mag niet leeg zijn.'', ''Totale duur moet groter dan nul zijn.'',
                    ''Segmentlengte moet groter dan nul zijn.'']"
    by simp
  show ?thesis unfolding c using d by simp
qed

theorem invalid_input_aborts_witness:
  "(''  '' = [] \<or> strip ''  '' = [] \<or> (1 / 4 :: rat) \<le> 0 \<or> (7 :: rat) \<le> 0)
   \<and> create_segments binary64 test_host test_state ''  '' (1 / 4) 7
        \<lparr>gen_info = [], warnings = [], tasks_submitted = []\<rparr>
       = (Inr (Warning_Md ''Prompt mag niet leeg zijn.'' True),
          \<lparr>gen_info = [], warnings = [''Prompt mag niet leeg zijn.''], tasks_submitted = []\<rparr>)
   \<and> (''A'' = [] \<or> strip ''A'' = [] \<or> (0 :: rat) \<le> 0 \<or> (7 :: rat) \<le> 0)
   \<and> create_segments binary64 test_host test_state ''A'' 0 7
        \<lparr>gen_info = [], warnings = [], tasks_submitted = []\<rparr>
       = (Inr (Warning_Md ''Totale duur moet groter dan nul zijn.'' True),
          \<lparr>gen_info = [], warnings = [''Totale duur moet groter dan nul zijn.''], tasks_submitted = []\<rparr>)
   \<and> (''A'' = [] \<or> strip ''A'' = [] \<or> (1 / 4 :: rat) \<le> 0 \<or> (0 :: rat) \<le> 0)
   \<and> create_segments binary64 test_host test_state ''A'' (1 / 4) 0
        \<lparr>gen_info = [], warnings = [], tasks_submitted = []\<rparr>
       = (Inr (Warning_Md ''Segmentlengte moet groter dan nul zijn.'' True),
          \<lparr>gen_info = [], warnings = [''Segmentlengte moet groter dan nul zijn.''], tasks_submitted = []\<rparr>)"
proof -
  let ?w = "\<lparr>gen_info = [], warnings = [], tasks_submitted = []\<rparr>"
  have b: "strip ''  '' = []" by code_simp
  have a: "strip ''A'' \<noteq> []" by code_simp
  have q: "has_queue_html_container test_host = True" by (simp add: test_host_def)
  have h1: "''  '' = [] \<or> strip ''  '' = [] \<or> (1 / 4 :: rat) \<le> 0 \<or> (7 :: rat) \<le> 0"
    using b by simp
  have h2: "''A'' = [] \<or> strip ''A'' = [] \<or> (0 :: rat) \<le> 0 \<or> (7 :: rat) \<le> 0" by simp
  have h3: "''A'' = [] \<or> strip ''A'' = [] \<or> (1 / 4 :: rat) \<le> 0 \<or> (0 :: rat) \<le> 0" by simp
  have 1: "create_segments binary64 test_host test_state ''  '' (1 / 4) 7 ?w
       = (Inr (Warning_Md ''Prompt mag niet leeg zijn.'' True),
          \<lparr>gen_info = [], warnings = [''Prompt mag niet leeg zijn.''], tasks_submitted = []\<rparr>)"
    using invalid_input_aborts [OF h1, where rnd = binary64 and h = test_host and state = test_state and w = ?w] b q by simp
  have 2: "create_segments binary64 test_host test_state ''A'' 0 7 ?w
       = (Inr (Warning_Md ''Totale duur moet groter dan nul zijn.'' True),
          \<lparr>gen_info = [], warnings = [''Totale duur moet groter dan nul zijn.''], tasks_submitted = []\<rparr>)"
    using invalid_input_aborts [OF h2, where rnd = binary64 and h = test_host and state = test_state and w = ?w] a q by simp
  have 3: "create_segments binary64 test_host test_state ''A'' (1 / 4) 0 ?w
       = (Inr (Warning_Md ''Segmentlengte moet groter dan nul zijn.'' True),
          \<lparr>gen_info = [], warnings = [''Segmentlengte moet groter dan nul zijn.''], tasks_submitted = []\<rparr>)"
    using invalid_input_aborts [OF h3, where rnd = binary64 and h = test_host and state = test_state and w = ?w] a q by simp
  show ?thesis using h1 h2 h3 1 2 3 by blast
qed

text \<open>
  Past the checks, the call submits the job of each segment in turn and then raises the
  counter of prompts.
\<close>

lemma queue_segments_success:
  assumes "get_current_model_settings h state = Some current"
    and "settings = dict_setdefault ''mode'' (PStr []) (dict_pop ''lset_name'' current)"
    and "model_type = dict_get state ''model_type'' PNone"
    and "model_filename = dict_get state ''model_filename'' PNone"
    and "base = get_base_model_type h model_type" and "base \<noteq> PNone"
    and "fps = get_computed_fps h (dict_get settings ''force_fps'' (PStr [])) base
                 (dict_get settings ''video_guide'' PNone) (dict_get settings ''video_source'' PNone)"
    and "number_of fps = Some x" and "0 < x"
    and "get_model_min_frames_and_step h base = (min_frames, frame_step, extra)"
    and "0 < min_frames" and "0 < frame_step"
    and "build_segments_plan rnd prompt total_minutes segment_seconds x min_frames frame_step = Inr plan"
    and "tasks = map (segment_settings_of settings model_type model_filename fps (length plan)) plan"
    and "gen2 = fold (add_video_task h) tasks (dict_setdefault ''queue'' (PList []) (gen_info w))"
    and "add_int (dict_get gen2 ''prompts_max'' (PInt 0)) (int (length plan)) = Inr prompts_max"
  shows "queue_segments rnd h state prompt total_minutes segment_seconds w
         = (Inr (Summary_Md plan
                  (case update_queue_data h of
                     None \<Rightarrow> None
                   | Some f \<Rightarrow>
                       if f (dict_get (dict_set ''prompts_max'' prompts_max gen2) ''queue'' PNone) = PNone
                       then None
                       else Some (f (dict_get (dict_set ''prompts_max'' prompts_max gen2) ''queue'' PNone)))),
            w\<lparr>gen_info := dict_set ''prompts_max'' prompts_max gen2,
              tasks_submitted := tasks_submitted w @ tasks\<rparr>)"
proof -
  have f: "fold (\<lambda>segment. submit h
                  (segment_settings_of settings model_type model_filename fps (length plan) segment))
             plan (w\<lparr>gen_info := dict_setdefault ''queue'' (PList []) (gen_info w)\<rparr>)
           = w\<lparr>gen_info := gen2, tasks_submitted := tasks_submitted w @ tasks\<rparr>"
    unfolding fold_submit assms(14,15) by simp
  have g: "\<not> (min_frames \<le> 0 \<or> frame_step \<le> 0)" using assms(11,12) by simp
  have n: "\<not> x \<le> 0" using assms(9) by simp
  have e: "enqueue_plan rnd h settings model_type model_filename fps x min_frames frame_step
             prompt total_minutes segment_seconds w
           = (Inr (Summary_Md plan
                  (case update_queue_data h of
                     None \<Rightarrow> None
                   | Some f \<Rightarrow>
                       if f (dict_get (dict_set ''prompts_max'' prompts_max gen2) ''queue'' PNone) = PNone
                       then None
                       else Some (f (dict_get (dict_set ''prompts_max'' prompts_max gen2) ''queue'' PNone)))),
              w\<lparr>gen_info := dict_set ''prompts_max'' prompts_max gen2,
                tasks_submitted := tasks_submitted w @ tasks\<rparr>)"
    unfolding enqueue_plan_def assms(13) sum.case Let_def f
    using assms(16) by (simp split: option.splits)
  show ?thesis
    unfolding queue_segments_def assms(1) Let_def option.case
      assms(2)[symmetric] assms(3)[symmetric] assms(4)[symmetric] assms(5)[symmetric]
      assms(7)[symmetric]
    using assms(6) n g assms(8,10) e
    by simp
qed

text \<open>
  C10, as stated, fails: on a generation info without the key \<open>queue\<close> the plugin itself
  creates that key, with an empty list, so \<open>prompts_max\<close> is not the only key it touches.
  With a host whose \<open>add_video_task\<close> leaves the generation info alone, the empty
  generation info has the keys \<open>queue\<close> and \<open>prompts_max\<close> after the call.
\<close>

theorem queue_key_created_counterexample:
  "fst (create_segments binary64 silent_host test_state ''A'' (1 / 16) (15 / 4)
          \<lparr>gen_info = [], warnings = [], tasks_submitted = []\<rparr>)
     = Inr (Summary_Md
             [\<lparr>seg_index = 1,
               seg_prompt = ''A (Segment 1/1. Houd stijl, personages en camera gelijkmatig).'',
               seg_seconds = 15 / 4, seg_frames = 30\<rparr>]
             (Some (PDict [(''queue'', PList [])])))
   \<and> gen_info (snd (create_segments binary64 silent_host test_state ''A'' (1 / 16) (15 / 4)
          \<lparr>gen_info = [], warnings = [], tasks_submitted = []\<rparr>))
     = [(''queue'', PList []), (''prompts_max'', PInt 1)]
   \<and> map_of (gen_info \<lparr>gen_info = [], warnings = [], tasks_submitted = []\<rparr>) ''queue'' = None
   \<and> map_of [(''queue'', PList []), (''prompts_max'', PInt 1)] ''queue'' = Some (PList [])"
proof -
  have "fst (create_segments binary64 silent_host test_state ''A'' (1 / 16) (15 / 4)
          \<lparr>gen_info = [], warnings = [], tasks_submitted = []\<rparr>)
     = Inr (Summary_Md
             [\<lparr>seg_index = 1,
               seg_prompt = ''A (Segment 1/1. Houd stijl, personages en camera gelijkmatig).'',
               seg_seconds = 15 / 4, seg_frames = 30\<rparr>]
             (Some (PDict [(''queue'', PList [])])))"
    by code_simp
  moreover have "gen_info (snd (create_segments binary64 silent_host test_state ''A'' (1 / 16) (15 / 4)
          \<lparr>gen_info = [], warnings = [], tasks_submitted = []\<rparr>))
     = [(''queue'', PList []), (''prompts_max'', PInt 1)]"
    by code_simp
  ultimately show ?thesis by simp
qed

text \<open>
  C10, amended. On a successful invocation of \<open>_create_segments\<close> (the validation passes,
  the model settings, base model type, fps and frame constants resolve, and \<open>prompts_max\<close>
  is absent or an integer that \<open>add_video_task\<close> leaves alone), exactly one job per plan
  entry is submitted via \<open>add_video_task\<close>, in plan order, each job carrying that entry's
  annotated prompt as \<open>prompt\<close> and its frame count as \<open>video_length\<close>, and
  \<open>prompts_max\<close> increases by exactly the number of segments. Besides that, the plugin
  itself only creates the key \<open>queue\<close>, with an empty list, when the generation info has
  none: the generation info after the call is the one before it with that default, the
  host's \<open>add_video_task\<close> applied once per job, and the new \<open>prompts_max\<close>. So every
  other key that the host's \<open>add_video_task\<close> leaves alone is unchanged.
\<close>

theorem tasks_follow_plan:
  fixes h :: host and w :: world and total_minutes segment_seconds x :: rat
    and rnd :: "rat \<Rightarrow> rat"
  assumes "prompt \<noteq> []" and "strip prompt \<noteq> []"
    and "0 < total_minutes" and "0 < segment_seconds"
    and "get_current_model_settings h state = Some current"
  defines "settings \<equiv> dict_setdefault ''mode'' (PStr []) (dict_pop ''lset_name'' current)"
  defines "model_type \<equiv> dict_get state ''model_type'' PNone"
  defines "model_filename \<equiv> dict_get state ''model_filename'' PNone"
  defines "base \<equiv> get_base_model_type h model_type"
  defines "fps \<equiv> get_computed_fps h (dict_get settings ''force_fps'' (PStr [])) base
                    (dict_get settings ''video_guide'' PNone) (dict_get settings ''video_source'' PNone)"
  assumes "base \<noteq> PNone"
    and "number_of fps = Some x" and "0 < x"
    and "get_model_min_frames_and_step h base = (min_frames, frame_step, extra)"
    and "0 < min_frames" and "0 < frame_step"
    and "dict_get (gen_info w) ''prompts_max'' (PInt 0) = PInt c"
    and "\<And>t g. map_of (add_video_task h t g) ''prompts_max'' = map_of g ''prompts_max''"
  shows "\<exists>plan queue_update w'.
            build_segments_plan rnd prompt total_minutes segment_seconds x min_frames frame_step = Inr plan
          \<and> create_segments rnd h state prompt total_minutes segment_seconds w
              = (Inr (Summary_Md plan queue_update), w')
          \<and> tasks_submitted w' = tasks_submitted w
              @ map (segment_settings_of settings model_type model_filename fps (length plan)) plan
          \<and> map (\<lambda>t. map_of t ''prompt'') (drop (length (tasks_submitted w)) (tasks_submitted w'))
              = map (\<lambda>s. Some (PStr (seg_prompt s))) plan
          \<and> map (\<lambda>t. map_of t ''video_length'') (drop (length (tasks_submitted w)) (tasks_submitted w'))
              = map (\<lambda>s. Some (PInt (seg_frames s))) plan
          \<and> warnings w' = warnings w
          \<and> map_of (gen_info w') ''prompts_max'' = Some (PInt (c + int (length plan)))
          \<and> gen_info w'
              = dict_set ''prompts_max'' (PInt (c + int (length plan)))
                  (fold (add_video_task h)
                     (map (segment_settings_of settings model_type model_filename fps (length plan)) plan)
                     (dict_setdefault ''queue'' (PList []) (gen_info w)))
          \<and> (\<forall>k. k \<noteq> ''prompts_max'' \<and> k \<noteq> ''queue''
                   \<and> (\<forall>t g. map_of (add_video_task h t g) k = map_of g k)
                \<longrightarrow> map_of (gen_info w') k = map_of (gen_info w) k)
          \<and> ((\<forall>t g. map_of (add_video_task h t g) ''queue'' = map_of g ''queue'')
                \<longrightarrow> map_of (gen_info w') ''queue''
                    = (case map_of (gen_info w) ''queue'' of None \<Rightarrow> Some (PList []) | Some q \<Rightarrow> Some q))"
proof -
  obtain plan where
    p: "build_segments_plan rnd prompt total_minutes segment_seconds x min_frames frame_step = Inr plan"
    using plan_shape [where segment_seconds = segment_seconds and frame_step = frame_step
        and rnd = rnd and total_minutes = total_minutes and prompt = prompt and fps = x
        and min_frames = min_frames] assms(4,16)
    by auto
  define tasks where
    "tasks = map (segment_settings_of settings model_type model_filename fps (length plan)) plan"
  define gen2 where
    "gen2 = fold (add_video_task h) tasks (dict_setdefault ''queue'' (PList []) (gen_info w))"
  define w' where
    "w' = w\<lparr>gen_info := dict_set ''prompts_max'' (PInt (c + int (length plan))) gen2,
            tasks_submitted := tasks_submitted w @ tasks\<rparr>"
  have "map_of gen2 ''prompts_max'' = map_of (gen_info w) ''prompts_max''"
    unfolding gen2_def using fold_host_key [of h "''prompts_max''", OF assms(18)]
    by (simp add: map_of_dict_setdefault)
  then have "dict_get gen2 ''prompts_max'' (PInt 0) = PInt c"
    using assms(17) by (simp add: dict_get_def)
  then have a: "add_int (dict_get gen2 ''prompts_max'' (PInt 0)) (int (length plan))
                = Inr (PInt (c + int (length plan)))"
    by simp
  have v: "validate_inputs prompt total_minutes segment_seconds = None"
    using assms(1-4) by (simp add: validate_inputs_None)
  define queue_update where
    "queue_update =
       (case update_queue_data h of
          None \<Rightarrow> None
        | Some f \<Rightarrow>
            if f (dict_get (dict_set ''prompts_max'' (PInt (c + int (length plan))) gen2) ''queue'' PNone)
               = PNone
            then None
            else Some (f (dict_get (dict_set ''prompts_max'' (PInt (c + int (length plan))) gen2)
                            ''queue'' PNone)))"
  have qs: "queue_segments rnd h state prompt total_minutes segment_seconds w
            = (Inr (Summary_Md plan queue_update), w')"
    unfolding queue_update_def w'_def
    by (rule queue_segments_success [OF assms(5) settings_def [THEN meta_eq_to_obj_eq]
        model_type_def [THEN meta_eq_to_obj_eq] model_filename_def [THEN meta_eq_to_obj_eq]
        base_def [THEN meta_eq_to_obj_eq] assms(11) fps_def [THEN meta_eq_to_obj_eq]
        assms(12-16) p tasks_def gen2_def a])
  have c: "create_segments rnd h state prompt total_minutes segment_seconds w
        = (Inr (Summary_Md plan queue_update), w')"
    unfolding create_segments_def v option.case by (rule qs)
  have 1: "tasks_submitted w' = tasks_submitted w
              @ map (segment_settings_of settings model_type model_filename fps (length plan)) plan"
    unfolding w'_def tasks_def by simp
  then have d: "drop (length (tasks_submitted w)) (tasks_submitted w')
                = map (segment_settings_of settings model_type model_filename fps (length plan)) plan"
    by simp
  have 2: "map (\<lambda>t. map_of t ''prompt'') (drop (length (tasks_submitted w)) (tasks_submitted w'))
              = map (\<lambda>s. Some (PStr (seg_prompt s))) plan"
    unfolding d by (simp add: segment_settings_of_def map_of_dict_set comp_def)
  have 3: "map (\<lambda>t. map_of t ''video_length'') (drop (length (tasks_submitted w)) (tasks_submitted w'))
              = map (\<lambda>s. Some (PInt (seg_frames s))) plan"
    unfolding d by (simp add: segment_settings_of_def map_of_dict_set comp_def)
  have 4: "warnings w' = warnings w" unfolding w'_def by simp
  have g: "gen_info w' = dict_set ''prompts_max'' (PInt (c + int (length plan))) gen2"
    unfolding w'_def by simp
  have 5: "map_of (gen_info w') ''prompts_max'' = Some (PInt (c + int (length plan)))"
    unfolding g by (simp add: map_of_dict_set)
  have 6: "\<forall>k. k \<noteq> ''prompts_max'' \<and> k \<noteq> ''queue''
                   \<and> (\<forall>t g. map_of (add_video_task h t g) k = map_of g k)
                \<longrightarrow> map_of (gen_info w') k = map_of (gen_info w) k"
  proof (intro allI impI)
    fix k
    assume k: "k \<noteq> ''prompts_max'' \<and> k \<noteq> ''queue''
                   \<and> (\<forall>t g. map_of (add_video_task h t g) k = map_of g k)"
    then have "map_of gen2 k = map_of (dict_setdefault ''queue'' (PList []) (gen_info w)) k"
      unfolding gen2_def using fold_host_key [of h k] by blast
    then show "map_of (gen_info w') k = map_of (gen_info w) k"
      unfolding g using k by (simp add: map_of_dict_set map_of_dict_setdefault)
  qed
  have 7: "(\<forall>t g. map_of (add_video_task h t g) ''queue'' = map_of g ''queue'')
                \<longrightarrow> map_of (gen_info w') ''queue''
                    = (case map_of (gen_info w) ''queue'' of None \<Rightarrow> Some (PList []) | Some q \<Rightarrow> Some q)"
  proof
    assume "\<forall>t g. map_of (add_video_task h t g) ''queue'' = map_of g ''queue''"
    then have "map_of gen2 ''queue'' = map_of (dict_setdefault ''queue'' (PList []) (gen_info w)) ''queue''"
      unfolding gen2_def using fold_host_key [of h "''queue''"] by blast
    then show "map_of (gen_info w') ''queue''
                    = (case map_of (gen_info w) ''queue'' of None \<Rightarrow> Some (PList []) | Some q \<Rightarrow> Some q)"
      unfolding g by (simp add: map_of_dict_set map_of_dict_setdefault split: option.splits)
  qed
  have 8: "gen_info w'
              = dict_set ''prompts_max'' (PInt (c + int (length plan)))
                  (fold (add_video_task h)
                     (map (segment_settings_of settings model_type model_filename fps (length plan)) plan)
                     (dict_setdefault ''queue'' (PList []) (gen_info w)))"
    unfolding g gen2_def tasks_def ..
  show ?thesis
    by (intro exI [of _ plan] exI [of _ queue_update] exI [of _ w'] conjI)
       (rule p c 1 2 3 4 5 8 6 7)+
qed

theorem tasks_follow_plan_witness:
  "''Een lange prompt met twee zinnen. Nog een stukje prompt.'' \<noteq> []
   \<and> strip ''Een lange prompt met twee zinnen. Nog een stukje prompt.'' \<noteq> []
   \<and> (0::rat) < 1 / 4 \<and> (0::rat) < 7
   \<and> dict_get (gen_info \<lparr>gen_info = [(''queue'', PList [])], warnings = [], tasks_submitted = []\<rparr>)
         ''prompts_max'' (PInt 0) = PInt 0
   \<and> (\<exists>plan queue_update w'.
          create_segments binary64 test_host test_state
            ''Een lange prompt met twee zinnen. Nog een stukje prompt.'' (1 / 4) 7
            \<lparr>gen_info = [(''queue'', PList [])], warnings = [], tasks_submitted = []\<rparr>
          = (Inr (Summary_Md plan queue_update), w')
        \<and> length plan = 3
        \<and> map (\<lambda>t. map_of t ''prompt'') (tasks_submitted w') =
            [Some (PStr ''Een lange prompt met twee zinnen. (Segment 1/3. Houd stijl, personages en camera gelijkmatig).''),
             Some (PStr ''Nog een stukje prompt. (Segment 2/3. Houd stijl, personages en camera gelijkmatig).''),
             Some (PStr ''Nog een stukje prompt. (Segment 3/3. Houd stijl, personages en camera gelijkmatig).'')]
        \<and> map (\<lambda>t. map_of t ''video_length'') (tasks_submitted w') =
            [Some (PInt 56), Some (PInt 56), Some (PInt 56)]
        \<and> map_of (gen_info w') ''prompts_max'' = Some (PInt 3))"
proof -
  let ?p = "''Een lange prompt met twee zinnen. Nog een stukje prompt.''"
  let ?w = "\<lparr>gen_info = [(''queue'', PList [])], warnings = [], tasks_submitted = []\<rparr>"
  have h1: "?p \<noteq> []" by simp
  have h2: "strip ?p \<noteq> []" by code_simp
  have h3: "(0::rat) < 1 / 4" and h4: "(0::rat) < 7" by simp_all
  have h5: "get_current_model_settings test_host test_state
            = Some [(''force_fps'', PStr []), (''video_guide'', PNone), (''video_source'', PNone)]"
    by (simp add: test_host_def)
  have h6: "\<And>m. get_base_model_type test_host m \<noteq> PNone" by (simp add: test_host_def)
  have h7: "\<And>a b c d. number_of (get_computed_fps test_host a b c d) = Some 8"
    by (simp add: test_host_def)
  have h8: "(0::rat) < 8" by simp
  have h9: "\<And>b. get_model_min_frames_and_step test_host b = (8, 2, PNone)"
    by (simp add: test_host_def)
  have h10: "(0::int) < 8" and h11: "(0::int) < 2" by simp_all
  have h12: "dict_get (gen_info ?w) ''prompts_max'' (PInt 0) = PInt 0" by (simp add: dict_get_def)
  have h13: "\<And>t g. map_of (add_video_task test_host t g) ''prompts_max'' = map_of g ''prompts_max''"
    by (simp add: test_host_def map_of_dict_set split: option.splits pyval.splits)
  have e: "build_segments_plan binary64 ?p (1 / 4) 7 8 8 2 =
     Inr [\<lparr>seg_index = 1,
            seg_prompt = ''Een lange prompt met twee zinnen. (Segment 1/3. Houd stijl, personages en camera gelijkmatig).'',
            seg_seconds = 7, seg_frames = 56\<rparr>,
          \<lparr>seg_index = 2,
            seg_prompt = ''Nog een stukje prompt. (Segment 2/3. Houd stijl, personages en camera gelijkmatig).'',
            seg_seconds = 7, seg_frames = 56\<rparr>,
          \<lparr>seg_index = 3,
            seg_prompt = ''Nog een stukje prompt. (Segment 3/3. Houd stijl, personages en camera gelijkmatig).'',
            seg_seconds = 7, seg_frames = 56\<rparr>]"
    by code_simp
  note t = tasks_follow_plan [OF h1 h2 h3 h4 h5 h6 h7 h8 h9 h10 h11 h12 h13, where rnd = binary64]
  from t obtain plan queue_update w' where
    p: "build_segments_plan binary64 ?p (1 / 4) 7 8 8 2 = Inr plan"
    and c: "create_segments binary64 test_host test_state ?p (1 / 4) 7 ?w = (Inr (Summary_Md plan queue_update), w')"
    and a: "map (\<lambda>t. map_of t ''prompt'') (drop (length (tasks_submitted ?w)) (tasks_submitted w'))
              = map (\<lambda>s. Some (PStr (seg_prompt s))) plan"
    and b: "map (\<lambda>t. map_of t ''video_length'') (drop (length (tasks_submitted ?w)) (tasks_submitted w'))
              = map (\<lambda>s. Some (PInt (seg_frames s))) plan"
    and m: "map_of (gen_info w') ''prompts_max'' = Some (PInt (0 + int (length plan)))"
    by (elim exE conjE) (rule that; assumption)
  have pl: "plan = [\<lparr>seg_index = 1,
            seg_prompt = ''Een lange prompt met twee zinnen. (Segment 1/3. Houd stijl, personages en camera gelijkmatig).'',
            seg_seconds = 7, seg_frames = 56\<rparr>,
          \<lparr>seg_index = 2,
            seg_prompt = ''Nog een stukje prompt. (Segment 2/3. Houd stijl, personages en camera gelijkmatig).'',
            seg_seconds = 7, seg_frames = 56\<rparr>,
          \<lparr>seg_index = 3,
            seg_prompt = ''Nog een stukje prompt. (Segment 3/3. Houd stijl, personages en camera gelijkmatig).'',
            seg_seconds = 7, seg_frames = 56\<rparr>]"
    using e p by simp
  have 1: "length plan = 3" unfolding pl by simp
  have 2: "map (\<lambda>t. map_of t ''prompt'') (tasks_submitted w') =
            [Some (PStr ''Een lange prompt met twee zinnen. (Segment 1/3. Houd stijl, personages en camera gelijkmatig).''),
             Some (PStr ''Nog een stukje prompt. (Segment 2/3. Houd stijl, personages en camera gelijkmatig).''),
             Some (PStr ''Nog een stukje prompt. (Segment 3/3. Houd stijl, personages en camera gelijkmatig).'')]"
    using a unfolding pl by simp
  have 3: "map (\<lambda>t. map_of t ''video_length'') (tasks_submitted w') =
            [Some (PInt 56), Some (PInt 56), Some (PInt 56)]"
    using b unfolding pl by simp
  have 4: "map_of (gen_info w') ''prompts_max'' = Some (PInt 3)" using m 1 by simp
  have ex: "\<exists>plan queue_update w'.
          create_segments binary64 test_host test_state ?p (1 / 4) 7 ?w = (Inr (Summary_Md plan queue_update), w')
        \<and> length plan = 3
        \<and> map (\<lambda>t. map_of t ''prompt'') (tasks_submitted w') =
            [Some (PStr ''Een lange prompt met twee zinnen. (Segment 1/3. Houd stijl, personages en camera gelijkmatig).''),
             Some (PStr ''Nog een stukje prompt. (Segment 2/3. Houd stijl, personages en camera gelijkmatig).''),
             Some (PStr ''Nog een stukje prompt. (Segment 3/3. Houd stijl, personages en camera gelijkmatig).'')]
        \<and> map (\<lambda>t. map_of t ''video_length'') (tasks_submitted w') =
            [Some (PInt 56), Some (PInt 56), Some (PInt 56)]
        \<and> map_of (gen_info w') ''prompts_max'' = Some (PInt 3)"
    by (intro exI [of _ plan] exI [of _ queue_update] exI [of _ w'] conjI) (rule c 1 2 3 4)+
  show ?thesis 
    by (intro conjI) (rule h1 h2 h3 h4 h12 ex)+
qed

end
